theory Spec2Isabelle
  imports Main "HOL-Library.AList" "HOL-Library.Sublist"
begin

section \<open>The HtmlCheerio node: declarative extraction from parsed HTML\<close>

text \<open>
  This theory embeds \<^verbatim>\<open>packages/nodes-base/nodes/HtmlCheerio/V1/HtmlCheerioV1.node.ts\<close>:
  the text normaliser \<^verbatim>\<open>formatText\<close>, the recursive rule resolver
  \<^verbatim>\<open>resolveSelectFields\<close> and the batch loop of \<^verbatim>\<open>HtmlCheerioV1.execute\<close>.
\<close>

subsection \<open>Strings\<close>

text \<open>
  A JavaScript string is a sequence of UTF-16 code units; a code unit is modelled as a
  natural number. \<open>str\<close> turns an ASCII literal into its code units.
\<close>

type_synonym jsstring = "nat list"

abbreviation (input) str :: "string \<Rightarrow> jsstring" where
  "str s \<equiv> map of_char s"

text \<open>
  The code units that the regular expression class \<^verbatim>\<open>\s\<close> and \<^verbatim>\<open>String.prototype.trim\<close>
  treat as white space: TAB, LF, VT, FF, CR, SP, NBSP, the Unicode space separators,
  LS, PS and the byte order mark.
\<close>

definition is_space :: "nat \<Rightarrow> bool" where
  "is_space c \<longleftrightarrow>
     c \<in> {0x09, 0x0A, 0x0B, 0x0C, 0x0D, 0x20, 0xA0, 0x1680, 0x2028, 0x2029, 0x202F,
          0x205F, 0x3000, 0xFEFF}
     \<or> (0x2000 \<le> c \<and> c \<le> 0x200A)"

text \<open>\<^verbatim>\<open>text.trim()\<close>: white space is removed at both ends.\<close>

definition trim :: "jsstring \<Rightarrow> jsstring" where
  "trim s = rev (dropWhile is_space (rev (dropWhile is_space s)))"

subsection \<open>The regular expression of \<^verbatim>\<open>formatText\<close>\<close>

text \<open>
  \<^verbatim>\<open>/(\s*)\n+(\s*)/g\<close> is matched the way a backtracking engine does it.
  \<open>match_newlines\<close> is the tail \<^verbatim>\<open>\n+(\s*)\<close> tried at the head of a string: both
  quantifiers are greedy and what follows them always matches, so they take the longest
  runs. The result is the text left after the match.
\<close>

definition match_newlines :: "jsstring \<Rightarrow> jsstring option" where
  "match_newlines s =
     (case s of
        [] \<Rightarrow> None
      | c # cs \<Rightarrow>
          if c = 0x0A then Some (dropWhile is_space (dropWhile (\<lambda>x. x = 0x0A) s))
          else None)"

text \<open>
  The leading \<^verbatim>\<open>(\s*)\<close> first takes \<open>k\<close> code units, the whole run of white space,
  and gives them back one at a time until the tail matches.
\<close>

fun match_from :: "nat \<Rightarrow> jsstring \<Rightarrow> jsstring option" where
  "match_from 0 s = match_newlines s"
| "match_from (Suc j) s =
     (case match_newlines (drop (Suc j) s) of
        Some rest \<Rightarrow> Some rest
      | None \<Rightarrow> match_from j s)"

definition regex_match :: "jsstring \<Rightarrow> jsstring option" where
  "regex_match s = match_from (length (takeWhile is_space s)) s"

text \<open>
  \<^verbatim>\<open>replace(re, ' ')\<close> with the global flag: scan from the left; where the expression
  matches, emit one space and go on after the match, otherwise copy one code unit. A match
  is never empty, since it holds a line feed.
\<close>

function replace_all :: "jsstring \<Rightarrow> jsstring" where
  "replace_all [] = []"
| "replace_all (c # cs) =
     (case regex_match (c # cs) of
        Some rest \<Rightarrow> 0x20 # replace_all rest
      | None \<Rightarrow> c # replace_all cs)"
  by pat_completeness auto
termination
proof (relation "measure length")
  show "wf (measure length)" by simp
next
  fix c cs rest
  assume m: "regex_match (c # cs) = Some rest"
  have tail: "length r < length s" if "match_newlines s = Some r" for s r
  proof (cases s)
    case Nil
    with that show ?thesis by (simp add: match_newlines_def)
  next
    case (Cons a as)
    with that have "r = dropWhile is_space (dropWhile (\<lambda>x. x = 0x0A) as)"
      by (simp add: match_newlines_def split: if_splits)
    moreover have "length (dropWhile is_space (dropWhile (\<lambda>x. x = 0x0A) as)) \<le> length as"
      by (rule order_trans[OF length_dropWhile_le length_dropWhile_le])
    ultimately show ?thesis using Cons by simp
  qed
  have "length r < length s" if "match_from k s = Some r" for k s r
    using that
  proof (induction k)
    case 0
    then show ?case by (simp add: tail)
  next
    case (Suc k)
    show ?case
    proof (cases "match_newlines (drop (Suc k) s)")
      case None
      with Suc show ?thesis by simp
    next
      case (Some r')
      with Suc.prems have "r' = r" by simp
      with tail[OF Some] show ?thesis by simp
    qed
  qed
  with m have "length rest < length (c # cs)"
    unfolding regex_match_def by blast
  then show "(rest, c # cs) \<in> measure length" by simp
qed simp

definition formatText :: "jsstring \<Rightarrow> jsstring" where
  "formatText text = replace_all (trim text)"

text \<open>
  The normalisation in the words of the specification, for comparison with the code: a
  text is cut into its maximal runs of white space; a run that holds a line feed becomes
  one space, any other run and everything else is kept.
\<close>

function collapse_line_breaks :: "jsstring \<Rightarrow> jsstring" where
  "collapse_line_breaks [] = []"
| "collapse_line_breaks (c # cs) =
     (if is_space c
      then (if 0x0A \<in> set (c # takeWhile is_space cs) then [0x20]
            else c # takeWhile is_space cs)
           @ collapse_line_breaks (dropWhile is_space cs)
      else c # collapse_line_breaks cs)"
  by pat_completeness auto
termination
  by (relation "measure length") (auto simp: less_Suc_eq_le length_dropWhile_le)

subsection \<open>The parsed document\<close>

text \<open>
  Modelled from the spec: the cheerio library is not part of the sources. The parsed
  document is a tree of text nodes and elements; a node is named by its path from the
  root (the child indices on the way down), so that two equal subtrees at different
  places stay different nodes. \<^verbatim>\<open>$.root()\<close> is the empty path.
\<close>

datatype dom =
    TextNode jsstring
  | Element (tag: jsstring) (attribs: "(jsstring \<times> jsstring) list") (children: "dom list")

type_synonym path = "nat list"

fun node_at :: "dom \<Rightarrow> path \<Rightarrow> dom option" where
  "node_at d [] = Some d"
| "node_at (TextNode s) (i # p) = None"
| "node_at (Element t as cs) (i # p) = (if i < length cs then node_at (cs ! i) p else None)"

text \<open>
  The proper descendants of a node in document order (a node before its children, a child
  with all below it before the next child), as paths relative to the node.
\<close>

fun descendants :: "dom \<Rightarrow> path list"
  and desc_list :: "nat \<Rightarrow> dom list \<Rightarrow> path list" where
  "descendants (TextNode s) = []"
| "descendants (Element t as cs) = desc_list 0 cs"
| "desc_list i [] = []"
| "desc_list i (c # cs) = ([i] # map ((#) i) (descendants c)) @ desc_list (Suc i) cs"

text \<open>The document order on paths: an ancestor comes before its descendants.\<close>

fun doc_before :: "path \<Rightarrow> path \<Rightarrow> bool" where
  "doc_before [] [] = False"
| "doc_before [] (j # q) = True"
| "doc_before (i # p) [] = False"
| "doc_before (i # p) (j # q) = (i < j \<or> (i = j \<and> doc_before p q))"

definition is_element :: "dom \<Rightarrow> path \<Rightarrow> bool" where
  "is_element doc p = (case node_at doc p of Some (Element t as cs) \<Rightarrow> True | _ \<Rightarrow> False)"

subsection \<open>Rules, values and errors\<close>

text \<open>
  \<^verbatim>\<open>ISelectField\<close>. The rules come out of \<^verbatim>\<open>JSON.parse\<close> and the TypeScript types are
  gone at run time. The model covers rule objects whose \<open>varName\<close>, \<open>selector\<close> and
  \<open>valueType\<close> are strings (any strings; an absent \<open>selector\<close> is the empty string, which
  the code treats alike) and whose \<open>multi\<close> is absent or a boolean, in lists of such
  objects. \<open>valueBy\<close> is any JSON value, whatever \<open>valueType\<close> says: absent, a string, an
  array of rule objects, or \<open>Other\<close>: \<^verbatim>\<open>null\<close>, a boolean, a number or an object that is
  not an array, given by its JSON text.
\<close>

datatype select_field =
  Field (varName: jsstring) (selector: jsstring) (valueType: jsstring)
        (valueBy: valueBy) (multi: "bool option")
and valueBy =
    Undefined
  | Str jsstring
  | Fields "select_field list"
  | Other jsstring

text \<open>
  \<^verbatim>\<open>IResolveFieldResult\<close>: a string, an array, or a record. A record is a plain
  object: its prototype, \<open>None\<close> as long as it is \<^verbatim>\<open>Object.prototype\<close> and the value it
  was set to otherwise, and its own properties in the order in which the engine
  enumerates them.
\<close>

datatype jsvalue =
    VStr jsstring
  | VArr "jsvalue list"
  | VRec "jsvalue option \<times> (jsstring \<times> jsvalue) list"

type_synonym jsrecord = "jsvalue option \<times> (jsstring \<times> jsvalue) list"

text \<open>The object literal \<^verbatim>\<open>{}\<close>.\<close>

definition empty_record :: jsrecord where
  "empty_record = (None, [])"

text \<open>
  A property key is an array index when it is the decimal numeral, without a sign or
  leading zeros, of a number below \<open>2\<^sup>3\<^sup>2 - 1\<close>.
\<close>

definition is_digit :: "nat \<Rightarrow> bool" where
  "is_digit c \<longleftrightarrow> 0x30 \<le> c \<and> c \<le> 0x39"

definition digits_value :: "jsstring \<Rightarrow> nat" where
  "digits_value k = foldl (\<lambda>a c. 10 * a + (c - 0x30)) 0 k"

definition array_index :: "jsstring \<Rightarrow> nat option" where
  "array_index k =
     (if k \<noteq> [] \<and> list_all is_digit k \<and> (hd k \<noteq> 0x30 \<or> length k = 1)
         \<and> digits_value k \<le> 4294967294
      then Some (digits_value k) else None)"

text \<open>
  A new own property takes its place in the enumeration order: the array indices come
  first, in ascending order, then the other keys in the order of their creation.
\<close>

fun insert_index ::
  "nat \<Rightarrow> jsstring \<Rightarrow> jsvalue \<Rightarrow> (jsstring \<times> jsvalue) list \<Rightarrow> (jsstring \<times> jsvalue) list"
where
  "insert_index i k v [] = [(k, v)]"
| "insert_index i k v (p # ps) =
     (case array_index (fst p) of
        Some j \<Rightarrow> if j < i then p # insert_index i k v ps else (k, v) # p # ps
      | None \<Rightarrow> (k, v) # p # ps)"

text \<open>Writing an own data property: an existing one keeps its place.\<close>

definition own_put ::
  "jsstring \<Rightarrow> jsvalue \<Rightarrow> (jsstring \<times> jsvalue) list \<Rightarrow> (jsstring \<times> jsvalue) list"
where
  "own_put k v ps =
     (if map_of ps k \<noteq> None then AList.update k v ps
      else case array_index k of
             Some i \<Rightarrow> insert_index i k v ps
           | None \<Rightarrow> ps @ [(k, v)])"

text \<open>
  The assignment \<^verbatim>\<open>result[varName] = v\<close> on a record. The key \<^verbatim>\<open>__proto__\<close> is found
  as an accessor of \<^verbatim>\<open>Object.prototype\<close>: its setter makes an object (an array or a
  record) the prototype of the record and ignores a string, and no own property is
  written. Any other key is found nowhere or as a writable data property, and becomes
  an own property of the record.
\<close>

definition assign :: "jsstring \<Rightarrow> jsvalue \<Rightarrow> jsrecord \<Rightarrow> jsrecord" where
  "assign k v r =
     (if k = str ''__proto__''
      then (case v of VStr s \<Rightarrow> r | _ \<Rightarrow> (Some v, snd r))
      else (fst r, own_put k v (snd r)))"

text \<open>
  What is thrown: a \<^verbatim>\<open>NodeOperationError\<close> with the message and the options given to
  its constructor, the \<^verbatim>\<open>TypeError\<close> of a \<^verbatim>\<open>for ... of\<close> over a value that is not
  iterable, or an error of the binary data helpers.
\<close>

datatype error_options = NoOptions | OptMessage jsstring | OptItemIndex nat

datatype error =
    NodeOperationError jsstring error_options
  | TypeError
  | HelperError jsstring

text \<open>What \<^verbatim>\<open>JSON.parse(rulesParams)\<close> returns: a falsy value, one rule object, or an
  array of rule objects.\<close>

datatype parsed_rules = ParsedFalsy | ParsedObject select_field | ParsedArray "select_field list"

text \<open>
  What the code takes from its libraries and is not in the sources, as parameters:
  \<^item> \<open>selector_matches sel doc p\<close>: the element at \<open>p\<close> of the document matches the
    CSS selector \<open>sel\<close> (a selector may look at the ancestors and siblings of the
    element, hence the whole document); selectors are taken as well-formed;
  \<^item> \<open>attr_other v n\<close>: what \<^verbatim>\<open>$(el).attr(v)\<close> returns on node \<open>n\<close> when \<open>v\<close> is not a
    string, \<open>None\<close> for \<^verbatim>\<open>undefined\<close>;
  \<^item> \<open>json_parse\<close>: \<^verbatim>\<open>JSON.parse\<close>, \<open>Inl\<close> with the message of the error it throws;
  \<^item> \<open>cheerio_load\<close>: \<^verbatim>\<open>cheerio.load\<close>;
  \<^item> \<open>message_of\<close>: the \<^verbatim>\<open>message\<close> property of a caught error;
  \<^item> \<open>text_skipped t\<close>: \<^verbatim>\<open>text()\<close> leaves out what is inside an element with tag \<open>t\<close>
    (some versions of the library skip \<^verbatim>\<open>script\<close> and \<^verbatim>\<open>style\<close>, others skip nothing).
\<close>

record runtime =
  selector_matches :: "jsstring \<Rightarrow> dom \<Rightarrow> path \<Rightarrow> bool"
  attr_other :: "valueBy \<Rightarrow> dom \<Rightarrow> jsvalue option"
  json_parse :: "jsstring \<Rightarrow> jsstring + parsed_rules"
  cheerio_load :: "jsstring \<Rightarrow> dom"
  message_of :: "error \<Rightarrow> jsstring"
  text_skipped :: "jsstring \<Rightarrow> bool"

text \<open>
  Modelled from the spec: \<^verbatim>\<open>$(el).text()\<close>, "the node's full rendered text content":
  the text nodes below the node, concatenated in document order, without what the
  library leaves out.
\<close>

fun text_of :: "runtime \<Rightarrow> dom \<Rightarrow> jsstring" where
  "text_of L (TextNode s) = s"
| "text_of L (Element t as cs) = (if text_skipped L t then [] else concat (map (text_of L) cs))"

definition cheerio_text :: "runtime \<Rightarrow> dom \<Rightarrow> path \<Rightarrow> jsstring" where
  "cheerio_text L doc el = (case node_at doc el of None \<Rightarrow> [] | Some n \<Rightarrow> text_of L n)"

text \<open>
  Modelled from the spec: \<^verbatim>\<open>$base.find(selector)\<close> for a selection of one node, with the
  contract "an ordered sequence of nodes, scoped to descendants of the node": the elements
  among the proper descendants of \<open>base\<close> that match, in document order.
\<close>

definition cheerio_find :: "runtime \<Rightarrow> dom \<Rightarrow> path \<Rightarrow> jsstring \<Rightarrow> path list" where
  "cheerio_find L doc base sel =
     (case node_at doc base of
        None \<Rightarrow> []
      | Some n \<Rightarrow>
          filter (\<lambda>p. is_element doc p \<and> selector_matches L sel doc p)
                 (map ((@) base) (descendants n)))"

text \<open>
  Modelled from the spec: \<^verbatim>\<open>$(el).attr(name)\<close>, "read the named attribute from the
  matched node", \<^verbatim>\<open>undefined\<close> when the element has no such attribute.
\<close>

definition cheerio_attr :: "runtime \<Rightarrow> dom \<Rightarrow> path \<Rightarrow> valueBy \<Rightarrow> jsvalue option" where
  "cheerio_attr L doc el v =
     (case node_at doc el of
        None \<Rightarrow> None
      | Some n \<Rightarrow>
          (case v of
             Str name \<Rightarrow>
               (case n of
                  Element t as cs \<Rightarrow> map_option VStr (map_of as name)
                | TextNode s \<Rightarrow> None)
           | _ \<Rightarrow> attr_other L v n))"

text \<open>\<^verbatim>\<open>x || ''\<close>: \<^verbatim>\<open>undefined\<close> and the empty string are falsy.\<close>

definition or_empty :: "jsvalue option \<Rightarrow> jsvalue" where
  "or_empty x = (case x of None \<Rightarrow> VStr [] | Some v \<Rightarrow> if v = VStr [] then VStr [] else v)"

text \<open>The message \<^verbatim>\<open>`${varName}: ...valueType: ${valueType}`\<close>, its three CJK characters
  as code units.\<close>

definition invalid_valueType :: "select_field \<Rightarrow> error" where
  "invalid_valueType f =
     NodeOperationError
       (varName f @ [0x3A, 0x20, 0x975E, 0x6CD5, 0x7684] @ str ''valueType: '' @ valueType f)
       NoOptions"

text \<open>\<^verbatim>\<open>els.forEach(el => arr.push(...))\<close> where the callback may throw: the first
  error ends the loop.\<close>

fun collect :: "('e + 'a) list \<Rightarrow> 'e + 'a list" where
  "collect [] = Inr []"
| "collect (x # xs) =
     (case x of
        Inl e \<Rightarrow> Inl e
      | Inr v \<Rightarrow> (case collect xs of Inl e \<Rightarrow> Inl e | Inr vs \<Rightarrow> Inr (v # vs)))"

subsection \<open>\<^verbatim>\<open>resolveSelectFields\<close>\<close>

text \<open>
  \<open>resolveSelectFields L fields doc base\<close> takes what the call passes as \<^verbatim>\<open>fields\<close>:
  the casts of the source check nothing, so it may be any \<open>valueBy\<close>. Iterating
  \<^verbatim>\<open>undefined\<close>, \<^verbatim>\<open>null\<close>, a boolean, a number or an object that is not an array throws
  a \<^verbatim>\<open>TypeError\<close>; iterating a string yields its characters, none of which has a
  \<^verbatim>\<open>selector\<close>, so every step is skipped. \<open>resolve_loop\<close> is the \<^verbatim>\<open>for\<close> loop over an
  array, with \<^verbatim>\<open>result\<close> as its state.
\<close>

function resolveSelectFields :: "runtime \<Rightarrow> valueBy \<Rightarrow> dom \<Rightarrow> path \<Rightarrow> error + jsrecord"
  and resolve_loop :: "runtime \<Rightarrow> dom \<Rightarrow> path \<Rightarrow> select_field list \<Rightarrow> jsrecord \<Rightarrow> error + jsrecord"
where
  "resolveSelectFields L Undefined doc base = Inl TypeError"
| "resolveSelectFields L (Other j) doc base = Inl TypeError"
| "resolveSelectFields L (Str s) doc base = Inr empty_record"
| "resolveSelectFields L (Fields fs) doc base = resolve_loop L doc base fs empty_record"
| "resolve_loop L doc base [] result = Inr result"
| "resolve_loop L doc base (f # rest) result =
     (if selector f = [] then resolve_loop L doc base rest result
      else if multi f = Some True then
        (if valueType f = str ''text'' then
           resolve_loop L doc base rest
             (assign (varName f)
                (VArr (map (\<lambda>el. VStr (formatText (cheerio_text L doc el)))
                           (cheerio_find L doc base (selector f))))
                result)
         else if valueType f = str ''attr'' then
           resolve_loop L doc base rest
             (assign (varName f)
                (VArr (map (\<lambda>el. or_empty (cheerio_attr L doc el (valueBy f)))
                           (cheerio_find L doc base (selector f))))
                result)
         else if valueType f = str ''object'' then
           (case collect (map (\<lambda>el. resolveSelectFields L (valueBy f) doc el)
                              (cheerio_find L doc base (selector f))) of
              Inl e \<Rightarrow> Inl e
            | Inr subRecords \<Rightarrow>
                resolve_loop L doc base rest
                  (assign (varName f) (VArr (map VRec subRecords)) result))
         else Inl (invalid_valueType f))
      else
        (case cheerio_find L doc base (selector f) of
           [] \<Rightarrow> resolve_loop L doc base rest result
         | el # others \<Rightarrow>
             if valueType f = str ''text'' then
               resolve_loop L doc base rest
                 (assign (varName f) (VStr (formatText (cheerio_text L doc el))) result)
             else if valueType f = str ''attr'' then
               resolve_loop L doc base rest
                 (assign (varName f) (or_empty (cheerio_attr L doc el (valueBy f))) result)
             else if valueType f = str ''object'' then
               (case resolveSelectFields L (valueBy f) doc el of
                  Inl e \<Rightarrow> Inl e
                | Inr sub \<Rightarrow>
                    resolve_loop L doc base rest (assign (varName f) (VRec sub) result))
             else Inl (invalid_valueType f)))"
  by pat_completeness auto
termination
proof -
  have less: "size (valueBy f) < size f" for f
    by (cases f) simp
  show ?thesis
    by (relation "measure (\<lambda>x. case x of
                     Inl (L, v, doc, base) \<Rightarrow> size v
                   | Inr (L, doc, base, fs, result) \<Rightarrow> size_list size fs)")
       (simp_all add: less less_SucI trans_less_add1)
qed

text \<open>The equation of the loop body is unfolded on request only.\<close>

declare resolve_loop.simps(2) [simp del]

subsection \<open>\<^verbatim>\<open>HtmlCheerioV1.execute\<close>\<close>

text \<open>
  An input item together with the node parameters evaluated for its index:
  \<open>json_get name\<close> is \<^verbatim>\<open>get(item.json, name)\<close>, \<open>None\<close> for \<^verbatim>\<open>undefined\<close>, a string
  or an array of strings otherwise; \<open>binary_get name\<close> is \<^verbatim>\<open>assertBinaryData\<close> followed by
  \<^verbatim>\<open>getBinaryDataBuffer\<close> and the decoding of the buffer, \<open>Inl\<close> when a helper throws.
\<close>

datatype source_type = JsonSource | BinarySource

datatype payload = OneHtml jsstring | ManyHtml "jsstring list"

record item =
  sourceType :: source_type
  dataPropertyName :: jsstring
  rulesParams :: jsstring
  json_get :: "jsstring \<Rightarrow> payload option"
  binary_get :: "jsstring \<Rightarrow> error + jsstring"

text \<open>\<^verbatim>\<open>INodeExecutionData\<close>, as far as the node fills it.\<close>

record execution_data =
  json :: jsrecord
  pairedItem :: nat

text \<open>The inner \<^verbatim>\<open>try\<close>: parse the rules; a falsy result is no rule, a single object
  is a list of one.\<close>

definition parse_rules :: "runtime \<Rightarrow> jsstring \<Rightarrow> error + select_field list" where
  "parse_rules L params =
     (case json_parse L params of
        Inl msg \<Rightarrow>
          Inl (NodeOperationError
                 (str ''Rules are invalid. Expected an array or an object, got '' @ params)
                 (OptMessage msg))
      | Inr ParsedFalsy \<Rightarrow> Inr []
      | Inr (ParsedObject f) \<Rightarrow> Inr [f]
      | Inr (ParsedArray fs) \<Rightarrow> Inr fs)"

text \<open>The HTML strings of an item, a single string as a list of one.\<close>

definition html_array :: "nat \<Rightarrow> item \<Rightarrow> error + jsstring list" where
  "html_array idx it =
     (case sourceType it of
        JsonSource \<Rightarrow>
          (case json_get it (dataPropertyName it) of
             None \<Rightarrow>
               Inl (NodeOperationError
                      (str ''No property named '' @ [0x22] @ dataPropertyName it @ [0x22]
                       @ str '' exists!'')
                      (OptItemIndex idx))
           | Some (OneHtml h) \<Rightarrow> Inr [h]
           | Some (ManyHtml hs) \<Rightarrow> Inr hs)
      | BinarySource \<Rightarrow>
          (case binary_get it (dataPropertyName it) of
             Inl e \<Rightarrow> Inl e
           | Inr h \<Rightarrow> Inr [h]))"

text \<open>
  The loop over the HTML strings: what it pushes onto \<^verbatim>\<open>returnData\<close>, and the error
  that ends it, if any. What was pushed before the error stays pushed.
\<close>

fun extract_each ::
  "runtime \<Rightarrow> select_field list \<Rightarrow> nat \<Rightarrow> jsstring list \<Rightarrow> execution_data list \<times> error option"
where
  "extract_each L rules idx [] = ([], None)"
| "extract_each L rules idx (html # htmls) =
     (case resolveSelectFields L (Fields rules) (cheerio_load L html) [] of
        Inl e \<Rightarrow> ([], Some e)
      | Inr r \<Rightarrow>
          (case extract_each L rules idx htmls of
             (pushed, err) \<Rightarrow> (\<lparr>json = r, pairedItem = idx\<rparr> # pushed, err)))"

text \<open>The body of the outer \<^verbatim>\<open>try\<close> for one item.\<close>

definition try_item :: "runtime \<Rightarrow> nat \<Rightarrow> item \<Rightarrow> execution_data list \<times> error option" where
  "try_item L idx it =
     (case parse_rules L (rulesParams it) of
        Inl e \<Rightarrow> ([], Some e)
      | Inr rules \<Rightarrow>
          (case html_array idx it of
             Inl e \<Rightarrow> ([], Some e)
           | Inr htmls \<Rightarrow> extract_each L rules idx htmls))"

text \<open>The placeholder pushed by the \<^verbatim>\<open>catch\<close> block.\<close>

definition error_item :: "runtime \<Rightarrow> nat \<Rightarrow> error \<Rightarrow> execution_data" where
  "error_item L idx e =
     \<lparr>json = (None, [(str ''error'', VStr (message_of L e))]), pairedItem = idx\<rparr>"

text \<open>
  The \<^verbatim>\<open>for\<close> loop over the items from index \<open>idx\<close> on, with \<^verbatim>\<open>returnData\<close> as its
  state; \<open>continueOnFail\<close> is \<^verbatim>\<open>this.continueOnFail()\<close>. \<open>execute\<close> returns
  \<^verbatim>\<open>returnData\<close>, which the source wraps into a list of one output. Reading the node
  parameters is taken to succeed.
\<close>

fun execute_loop ::
  "runtime \<Rightarrow> bool \<Rightarrow> nat \<Rightarrow> item list \<Rightarrow> execution_data list \<Rightarrow> error + execution_data list"
where
  "execute_loop L continueOnFail idx [] returnData = Inr returnData"
| "execute_loop L continueOnFail idx (it # items) returnData =
     (case try_item L idx it of
        (pushed, None) \<Rightarrow>
          execute_loop L continueOnFail (Suc idx) items (returnData @ pushed)
      | (pushed, Some execError) \<Rightarrow>
          if continueOnFail
          then execute_loop L continueOnFail (Suc idx) items
                 (returnData @ pushed @ [error_item L idx execError])
          else Inl execError)"

definition execute :: "runtime \<Rightarrow> bool \<Rightarrow> item list \<Rightarrow> error + execution_data list" where
  "execute L continueOnFail items = execute_loop L continueOnFail 0 items []"

subsection \<open>Notions used in the statements\<close>

text \<open>
  What one item adds to \<^verbatim>\<open>returnData\<close> when \<^verbatim>\<open>continueOnFail()\<close> holds: what its
  loop pushed, and the placeholder after it when the \<^verbatim>\<open>try\<close> block threw.
\<close>

definition contribution :: "runtime \<Rightarrow> nat \<Rightarrow> item \<Rightarrow> execution_data list" where
  "contribution L idx it =
     (case try_item L idx it of
        (pushed, None) \<Rightarrow> pushed
      | (pushed, Some e) \<Rightarrow> pushed @ [error_item L idx e])"

subsection \<open>Example inputs\<close>

text \<open>The text "  Hello", a line feed, "   World  ".\<close>

definition hello_world :: jsstring where
  "hello_world = str ''  Hello'' @ [0x0A] @ str ''   World  ''"

text \<open>
  What \<^verbatim>\<open>cheerio.load\<close> makes of a fragment: the root, with \<^verbatim>\<open>html\<close>, \<^verbatim>\<open>head\<close> and
  \<^verbatim>\<open>body\<close> around the nodes of the fragment. The body is at path \<open>[0, 1]\<close>.
\<close>

definition page :: "dom list \<Rightarrow> dom" where
  "page body =
     Element (str ''root'') []
       [Element (str ''html'') []
          [Element (str ''head'') [] [], Element (str ''body'') [] body]]"

text \<open>A rule with an unknown value type, and its JSON text.\<close>

definition bogus_rule :: select_field where
  "bogus_rule = Field (str ''x'') (str ''b'') (str ''bogus'') Undefined None"

definition bogus_rule_text :: jsstring where
  \<open>bogus_rule_text = str ''{"varName":"x","selector":"b","valueType":"bogus"}''\<close>

text \<open>
  A runtime for the examples: a selector is a tag name, \<^verbatim>\<open>JSON.parse\<close> knows the text of
  \<open>bogus_rule\<close>, \<^verbatim>\<open>cheerio.load\<close> knows two fragments, the message of a
  \<^verbatim>\<open>NodeOperationError\<close> is the one given to its constructor, and \<^verbatim>\<open>text()\<close> skips
  \<^verbatim>\<open>script\<close> and \<^verbatim>\<open>style\<close>.
\<close>

definition by_tag :: runtime where
  "by_tag =
     \<lparr>selector_matches =
        (\<lambda>sel doc p. case node_at doc p of Some (Element t as cs) \<Rightarrow> t = sel | _ \<Rightarrow> False),
      attr_other = (\<lambda>v n. None),
      json_parse =
        (\<lambda>s. if s = bogus_rule_text then Inr (ParsedObject bogus_rule)
             else Inl (str ''Unexpected token'')),
      cheerio_load =
        (\<lambda>h. if h = str ''<p></p>'' then page [Element (str ''p'') [] []]
             else if h = str ''<b></b>'' then page [Element (str ''b'') [] []]
             else page []),
      message_of =
        (\<lambda>e. case e of
               NodeOperationError m opts \<Rightarrow> m
             | TypeError \<Rightarrow> str ''fields is not iterable''
             | HelperError m \<Rightarrow> m),
      text_skipped = (\<lambda>t. t = str ''script'' \<or> t = str ''style'')\<rparr>"

text \<open>\<^verbatim>\<open><ul><li class="x">A</li><li>B</li><li>C</li></ul>\<close>: the list is at path
  \<open>[0, 1, 0]\<close>, its items at \<open>[0, 1, 0, 0]\<close>, \<open>[0, 1, 0, 1]\<close> and \<open>[0, 1, 0, 2]\<close>.\<close>

definition list_doc :: dom where
  "list_doc =
     page [Element (str ''ul'') []
             [Element (str ''li'') [(str ''class'', str ''x'')] [TextNode (str ''A'')],
              Element (str ''li'') [] [TextNode (str ''B'')],
              Element (str ''li'') [] [TextNode (str ''C'')]]]"


text \<open>\<^verbatim>\<open><p>  Hello(line feed)   World  </p>\<close>: the paragraph is at path \<open>[0, 1, 0]\<close>.\<close>

definition hello_doc :: dom where
  "hello_doc = page [Element (str ''p'') [] [TextNode hello_world]]"

text \<open>\<^verbatim>\<open><div><span>a</span></div><div><span>b</span></div><span>c</span>\<close>: the two
  \<^verbatim>\<open>div\<close> are at paths \<open>[0, 1, 0]\<close> and \<open>[0, 1, 1]\<close>, the \<^verbatim>\<open>span\<close> beside them at
  \<open>[0, 1, 2]\<close>.\<close>

definition two_div_doc :: dom where
  "two_div_doc =
     page [Element (str ''div'') [] [Element (str ''span'') [] [TextNode (str ''a'')]],
           Element (str ''div'') [] [Element (str ''span'') [] [TextNode (str ''b'')]],
           Element (str ''span'') [] [TextNode (str ''c'')]]"

lemmas fixture_defs = page_def by_tag_def list_doc_def bogus_rule_def
  bogus_rule_text_def hello_doc_def two_div_doc_def
  cheerio_find_def is_element_def cheerio_text_def cheerio_attr_def or_empty_def

lemmas assign_defs = assign_def own_put_def array_index_def is_digit_def digits_value_def
  empty_record_def

section \<open>Facts about the text normaliser\<close>

lemma is_space_newline: "is_space 0x0A"
  by (simp add: is_space_def)

lemma dropWhile_drop_run:
  "j \<le> length (takeWhile P s) \<Longrightarrow> dropWhile P (drop j s) = dropWhile P s"
proof (induction s arbitrary: j)
  case Nil
  then show ?case by simp
next
  case (Cons a s)
  then show ?case by (cases j) (auto split: if_splits)
qed

lemma dropWhile_dropWhile_weaker:
  "(\<And>x. Q x \<Longrightarrow> P x) \<Longrightarrow> dropWhile P (dropWhile Q xs) = dropWhile P xs"
  by (induction xs) auto

lemma match_newlines_in_run:
  assumes "j \<le> length (takeWhile is_space s)"
  shows "match_newlines (drop j s) =
     (if j < length s \<and> s ! j = 0x0A then Some (dropWhile is_space s) else None)"
proof (cases "j < length s")
  case False
  then show ?thesis by (simp add: match_newlines_def)
next
  case True
  then have d: "drop j s = s ! j # drop (Suc j) s"
    by (simp add: Cons_nth_drop_Suc)
  have "dropWhile is_space (dropWhile (\<lambda>x. x = 0x0A) (drop j s)) = dropWhile is_space (drop j s)"
    by (rule dropWhile_dropWhile_weaker) (simp add: is_space_newline)
  also have "\<dots> = dropWhile is_space s"
    using assms by (rule dropWhile_drop_run)
  finally have e: "dropWhile is_space (dropWhile (\<lambda>x. x = 0x0A) (drop j s)) = dropWhile is_space s" .
  show ?thesis
  proof (cases "s ! j = 0x0A")
    case eq: True
    have "match_newlines (drop j s) = Some (dropWhile is_space (dropWhile (\<lambda>x. x = 0x0A) (drop j s)))"
      unfolding match_newlines_def by (subst d) (simp add: eq d[symmetric])
    then show ?thesis using True eq e by simp
  next
    case ne: False
    have "match_newlines (drop j s) = None"
      unfolding match_newlines_def by (subst d) (simp add: ne)
    then show ?thesis using ne by simp
  qed
qed

lemma match_from_in_run:
  "j \<le> length (takeWhile is_space s) \<Longrightarrow>
   match_from j s = (if 0x0A \<in> set (take (Suc j) s) then Some (dropWhile is_space s) else None)"
proof (induction j)
  case 0
  then show ?case
    using match_newlines_in_run[of 0 s] by (cases s) auto
next
  case (Suc j)
  have set: "set (take (Suc (Suc j)) s) = set (take (Suc j) s) \<union> (if Suc j < length s then {s ! Suc j} else {})"
    by (auto simp: take_Suc_conv_app_nth)
  show ?case
    using Suc match_newlines_in_run[of "Suc j" s]
    by (simp add: set del: take_Suc_Cons split: if_splits)
qed

lemma newline_in_run_prefix:
  "0x0A \<in> set (take (Suc (length (takeWhile is_space s))) s) \<longleftrightarrow> 0x0A \<in> set (takeWhile is_space s)"
proof (induction s)
  case Nil
  then show ?case by simp
next
  case (Cons a s)
  then show ?case by (auto simp: is_space_newline)
qed

lemma regex_match_run:
  "regex_match s =
     (if 0x0A \<in> set (takeWhile is_space s) then Some (dropWhile is_space s) else None)"
  unfolding regex_match_def
  by (simp add: match_from_in_run newline_in_run_prefix del: take_Suc_Cons)

lemma replace_all_plain_run:
  "0x0A \<notin> set (takeWhile is_space s) \<Longrightarrow>
   replace_all s = takeWhile is_space s @ replace_all (dropWhile is_space s)"
proof (induction s)
  case Nil
  then show ?case by simp
next
  case (Cons c cs)
  show ?case
  proof (cases "is_space c")
    case True
    with Cons show ?thesis by (simp add: regex_match_run)
  next
    case False
    then show ?thesis by simp
  qed
qed

lemma replace_all_collapse: "replace_all s = collapse_line_breaks s"
proof (induction s rule: collapse_line_breaks.induct)
  case 1
  then show ?case by simp
next
  case (2 c cs)
  show ?case
  proof (cases "is_space c")
    case True
    note sp = True
    show ?thesis
    proof (cases "0x0A \<in> set (c # takeWhile is_space cs)")
      case True
      with sp 2 show ?thesis by (simp add: regex_match_run)
    next
      case False
      with sp have "replace_all (c # cs) = (c # takeWhile is_space cs) @ replace_all (dropWhile is_space cs)"
        using replace_all_plain_run[of "c # cs"] by simp
      with sp False 2 show ?thesis by simp
    qed
  next
    case False
    with 2 show ?thesis by (simp add: regex_match_run)
  qed
qed

lemma trim_split:
  "t = takeWhile is_space t @ trim t @ rev (takeWhile is_space (rev (dropWhile is_space t)))"
proof -
  let ?u = "dropWhile is_space t"
  have "trim t @ rev (takeWhile is_space (rev ?u))
          = rev (takeWhile is_space (rev ?u) @ dropWhile is_space (rev ?u))"
    by (simp only: trim_def rev_append)
  also have "\<dots> = rev (rev ?u)"
    by (simp only: takeWhile_dropWhile_id)
  finally have "?u = trim t @ rev (takeWhile is_space (rev ?u))"
    by simp
  moreover have "t = takeWhile is_space t @ ?u" by simp
  ultimately show ?thesis by metis
qed

lemma trim_ends:
  assumes "trim t \<noteq> []"
  shows "\<not> is_space (hd (trim t)) \<and> \<not> is_space (last (trim t))"
proof -
  let ?u = "dropWhile is_space t"
  let ?v = "dropWhile is_space (rev ?u)"
  from assms have v: "?v \<noteq> []" by (metis rev_is_Nil_conv trim_def)
  have u: "?u \<noteq> []"
  proof
    assume "?u = []"
    then have "?v = []" by (simp only: rev.simps dropWhile.simps)
    with v show False by blast
  qed
  have "last (trim t) = hd ?v"
    using v by (simp add: trim_def last_rev del: dropWhile_eq_Nil_conv)
  moreover have "\<not> is_space (hd ?v)"
    using v by (rule hd_dropWhile)
  moreover have "hd (trim t) = last ?v"
    using v by (simp add: trim_def hd_rev del: dropWhile_eq_Nil_conv)
  moreover have "last ?v = last (rev ?u)"
    using v by (metis append_Nil2 last_appendR takeWhile_dropWhile_id)
  moreover have "last (rev ?u) = hd ?u"
    using u by (simp add: last_rev del: dropWhile_eq_Nil_conv)
  moreover have "\<not> is_space (hd ?u)"
    using u by (rule hd_dropWhile)
  ultimately show ?thesis by simp
qed

text \<open>
  C3: the value a \<open>text\<close> rule resolves for a matched node is the text of the node,
  normalised: the white space at both ends is removed, every maximal run of white space
  that holds a line feed is replaced by one space, and all other runs are kept. The loop
  binds that value for the first match, or the array of these values for all matches of
  a \<open>multi\<close> rule. The text "  Hello", line feed, "   World  " gives "Hello World".
\<close>

theorem formatText_normalises:
  "formatText t = collapse_line_breaks (trim t)
   \<and> (\<exists>pre suf. t = pre @ trim t @ suf
        \<and> (\<forall>c \<in> set pre. is_space c) \<and> (\<forall>c \<in> set suf. is_space c))
   \<and> (trim t \<noteq> [] \<longrightarrow> \<not> is_space (hd (trim t)) \<and> \<not> is_space (last (trim t)))
   \<and> formatText hello_world = str ''Hello World''
   \<and> (selector f \<noteq> [] \<and> valueType f = str ''text'' \<and> multi f = Some True \<longrightarrow>
        resolve_loop L doc base (f # rest) acc =
          resolve_loop L doc base rest
            (assign (varName f)
               (VArr (map (\<lambda>el. VStr (collapse_line_breaks (trim (cheerio_text L doc el))))
                          (cheerio_find L doc base (selector f))))
               acc))
   \<and> (selector f \<noteq> [] \<and> valueType f = str ''text'' \<and> multi f \<noteq> Some True
        \<and> cheerio_find L doc base (selector f) = el # others \<longrightarrow>
        resolve_loop L doc base (f # rest) acc =
          resolve_loop L doc base rest
            (assign (varName f) (VStr (collapse_line_breaks (trim (cheerio_text L doc el))))
               acc))"
proof -
  have a: "formatText t = collapse_line_breaks (trim t)" for t
    by (simp add: formatText_def replace_all_collapse)
  have b: "\<exists>pre suf. t = pre @ trim t @ suf
        \<and> (\<forall>c \<in> set pre. is_space c) \<and> (\<forall>c \<in> set suf. is_space c)"
  proof (intro exI conjI)
    show "t = takeWhile is_space t @ trim t @ rev (takeWhile is_space (rev (dropWhile is_space t)))"
      by (rule trim_split)
    show "\<forall>c \<in> set (takeWhile is_space t). is_space c"
      by (auto dest: set_takeWhileD)
    show "\<forall>c \<in> set (rev (takeWhile is_space (rev (dropWhile is_space t)))). is_space c"
      by (auto dest: set_takeWhileD)
  qed
  have c: "trim t \<noteq> [] \<longrightarrow> \<not> is_space (hd (trim t)) \<and> \<not> is_space (last (trim t))"
    using trim_ends by blast
  have d: "formatText hello_world = str ''Hello World''"
    by (simp add: hello_world_def formatText_def replace_all_collapse trim_def is_space_def)
  have e: "resolve_loop L doc base (f # rest) acc =
          resolve_loop L doc base rest
            (assign (varName f)
               (VArr (map (\<lambda>el. VStr (collapse_line_breaks (trim (cheerio_text L doc el))))
                          (cheerio_find L doc base (selector f))))
               acc)"
    if "selector f \<noteq> []" "valueType f = str ''text''" "multi f = Some True"
    using that by (simp add: resolve_loop.simps(2) a)
  have g: "resolve_loop L doc base (f # rest) acc =
          resolve_loop L doc base rest
            (assign (varName f) (VStr (collapse_line_breaks (trim (cheerio_text L doc el))))
               acc)"
    if "selector f \<noteq> []" "valueType f = str ''text''" "multi f \<noteq> Some True"
      "cheerio_find L doc base (selector f) = el # others"
    using that by (simp add: resolve_loop.simps(2) a)
  from a[of t] b c d e g show ?thesis by blast
qed

theorem formatText_normalises_witness:
  "resolveSelectFields by_tag
     (Fields [Field (str ''t'') (str ''p'') (str ''text'') Undefined None,
              Field (str ''ts'') (str ''p'') (str ''text'') Undefined (Some True)])
     hello_doc []
   = Inr (None, [(str ''t'', VStr (str ''Hello World'')),
                 (str ''ts'', VArr [VStr (str ''Hello World'')])])
   \<and> cheerio_text by_tag hello_doc [0, 1, 0] = hello_world
   \<and> trim hello_world = str ''Hello'' @ [0x0A] @ str ''   World''
   \<and> \<not> is_space (hd (trim hello_world)) \<and> \<not> is_space (last (trim hello_world))
   \<and> formatText (str ''a  b'') = str ''a  b''"
proof -
  let ?t = "Field (str ''t'') (str ''p'') (str ''text'') Undefined None"
  let ?ts = "Field (str ''ts'') (str ''p'') (str ''text'') Undefined (Some True)"
  have find: "cheerio_find by_tag hello_doc [] (str ''p'') = [0, 1, 0] # []"
    by (simp add: fixture_defs)
  have tx: "cheerio_text by_tag hello_doc [0, 1, 0] = hello_world"
    by (simp add: fixture_defs)
  have tr: "trim hello_world = str ''Hello'' @ [0x0A] @ str ''   World''"
    by (simp add: hello_world_def trim_def is_space_def)
  then have ne: "trim hello_world \<noteq> []"
    by simp
  have ends: "\<not> is_space (hd (trim hello_world)) \<and> \<not> is_space (last (trim hello_world))"
    using formatText_normalises[of hello_world] ne by blast
  have single: "selector ?t \<noteq> [] \<and> valueType ?t = str ''text'' \<and> multi ?t \<noteq> Some True
      \<and> cheerio_find by_tag hello_doc [] (selector ?t) = [0, 1, 0] # []"
    using find by simp
  have many: "selector ?ts \<noteq> [] \<and> valueType ?ts = str ''text'' \<and> multi ?ts = Some True"
    by simp
  have "resolveSelectFields by_tag (Fields [?t, ?ts]) hello_doc []
      = resolve_loop by_tag hello_doc [] (?t # [?ts]) empty_record"
    by simp
  also have "\<dots> = resolve_loop by_tag hello_doc [] (?ts # [])
        (assign (varName ?t)
           (VStr (collapse_line_breaks (trim (cheerio_text by_tag hello_doc [0, 1, 0]))))
           empty_record)"
    using formatText_normalises[where f = ?t and L = by_tag and doc = hello_doc and base = "[]"
        and el = "[0, 1, 0]" and others = "[]" and rest = "[?ts]" and acc = empty_record]
      single by blast
  also have "\<dots> = resolve_loop by_tag hello_doc [] []
        (assign (varName ?ts)
           (VArr (map (\<lambda>el. VStr (collapse_line_breaks (trim (cheerio_text by_tag hello_doc el))))
                      (cheerio_find by_tag hello_doc [] (selector ?ts))))
           (assign (varName ?t)
              (VStr (collapse_line_breaks (trim (cheerio_text by_tag hello_doc [0, 1, 0]))))
              empty_record))"
    using formatText_normalises[where f = ?ts and L = by_tag and doc = hello_doc
        and base = "[]" and rest = "[]"
        and acc = "assign (varName ?t)
           (VStr (collapse_line_breaks (trim (cheerio_text by_tag hello_doc [0, 1, 0]))))
           empty_record"]
      many by blast
  also have "\<dots> = Inr (None, [(str ''t'', VStr (str ''Hello World'')),
                 (str ''ts'', VArr [VStr (str ''Hello World'')])])"
    by (simp add: fixture_defs assign_defs hello_world_def trim_def is_space_def)
  finally have 1: "resolveSelectFields by_tag (Fields [?t, ?ts]) hello_doc []
      = Inr (None, [(str ''t'', VStr (str ''Hello World'')),
                 (str ''ts'', VArr [VStr (str ''Hello World'')])])" .
  have "formatText (str ''a  b'') = str ''a  b''"
    by (simp add: formatText_def replace_all_collapse trim_def is_space_def)
  with 1 tx tr ends show ?thesis by blast
qed

section \<open>Facts about the assignment to a record\<close>

lemma map_of_insert_index:
  "map_of ps k = None \<Longrightarrow> map_of (insert_index i k v ps) = (map_of ps)(k \<mapsto> v)"
proof (induction ps)
  case Nil
  then show ?case by simp
next
  case (Cons p ps)
  obtain k' v' where p: "p = (k', v')" by (cases p)
  with Cons.prems have ne: "k' \<noteq> k" and none: "map_of ps k = None"
    by (auto split: if_splits)
  show ?case
  proof (cases "array_index k'")
    case None
    with p show ?thesis by (auto simp: fun_eq_iff)
  next
    case (Some j)
    show ?thesis
    proof (cases "j < i")
      case True
      with Some p ne Cons.IH[OF none] show ?thesis
        by (auto simp: fun_upd_twist)
    next
      case False
      with Some p show ?thesis by (auto simp: fun_eq_iff)
    qed
  qed
qed

lemma map_of_own_put: "map_of (own_put k v ps) = (map_of ps)(k \<mapsto> v)"
proof (cases "map_of ps k")
  case (Some w)
  then show ?thesis by (simp add: own_put_def update_conv')
next
  case None
  show ?thesis
  proof (cases "array_index k")
    case (Some i)
    with None show ?thesis by (simp add: own_put_def map_of_insert_index)
  next
    case no_index: None
    have "map_of (ps @ [(k, v)]) = (map_of ps)(k \<mapsto> v)"
      using None by (auto simp: map_add_def fun_eq_iff split: option.splits)
    with None no_index show ?thesis by (simp add: own_put_def)
  qed
qed

lemma map_of_assign:
  "map_of (snd (assign k v r)) =
     (if k = str ''__proto__'' then map_of (snd r) else (map_of (snd r))(k \<mapsto> v))"
  by (cases v) (simp_all add: assign_def map_of_own_put)

section \<open>Facts about the rule loop\<close>

text \<open>One pass of the loop body, then the rest of the loop.\<close>

lemma resolve_loop_Cons:
  "resolve_loop L doc base (f # rest) acc =
     (case resolve_loop L doc base [f] acc of
        Inl e \<Rightarrow> Inl e
      | Inr acc' \<Rightarrow> resolve_loop L doc base rest acc')"
  by (simp add: resolve_loop.simps(2) split: sum.splits list.splits)

lemma resolve_loop_append:
  "resolve_loop L doc base (fs1 @ fs2) acc =
     (case resolve_loop L doc base fs1 acc of
        Inl e \<Rightarrow> Inl e
      | Inr acc' \<Rightarrow> resolve_loop L doc base fs2 acc')"
proof (induction fs1 arbitrary: acc)
  case Nil
  then show ?case by simp
next
  case (Cons f fs1)
  have "resolve_loop L doc base ((f # fs1) @ fs2) acc =
        (case resolve_loop L doc base [f] acc of
           Inl e \<Rightarrow> Inl e
         | Inr acc' \<Rightarrow> resolve_loop L doc base (fs1 @ fs2) acc')"
    using resolve_loop_Cons[of L doc base f "fs1 @ fs2" acc] by simp
  also have "\<dots> = (case resolve_loop L doc base (f # fs1) acc of
        Inl e \<Rightarrow> Inl e
      | Inr acc' \<Rightarrow> resolve_loop L doc base fs2 acc')"
    by (subst (2) resolve_loop_Cons) (simp add: Cons.IH split: sum.splits)
  finally show ?case .
qed

lemma resolve_step_cases:
  "resolve_loop L doc base [f] acc = Inr acc' \<Longrightarrow>
   acc' = acc \<or> (\<exists>v. acc' = assign (varName f) v acc)"
  by (auto simp: resolve_loop.simps(2) split: if_splits sum.splits list.splits)

lemma resolve_loop_skip:
  "selector f = [] \<or> (multi f \<noteq> Some True \<and> cheerio_find L doc base (selector f) = []) \<Longrightarrow>
   resolve_loop L doc base (f # rest) acc = resolve_loop L doc base rest acc"
  by (auto simp: resolve_loop.simps(2))

lemma resolve_loop_invalid:
  assumes "valueType f \<notin> {str ''text'', str ''attr'', str ''object''}"
    and "selector f \<noteq> []"
    and "multi f = Some True \<or> cheerio_find L doc base (selector f) \<noteq> []"
  shows "resolve_loop L doc base (f # rest) acc = Inl (invalid_valueType f)"
  using assms by (auto simp: resolve_loop.simps(2) split: list.splits)

lemma resolve_loop_untouched_key:
  "resolve_loop L doc base fs acc = Inr r \<Longrightarrow> k \<notin> varName ` set fs \<Longrightarrow>
   map_of (snd r) k = map_of (snd acc) k"
proof (induction fs arbitrary: acc)
  case Nil
  then show ?case by simp
next
  case (Cons f fs)
  from Cons.prems(1) obtain acc' where
    step: "resolve_loop L doc base [f] acc = Inr acc'" and
    rest: "resolve_loop L doc base fs acc' = Inr r"
    by (subst (asm) resolve_loop_Cons) (auto split: sum.splits)
  from Cons.prems(2) have k: "k \<noteq> varName f" "k \<notin> varName ` set fs" by auto
  from resolve_step_cases[OF step] k(1) have "map_of (snd acc') k = map_of (snd acc) k"
    by (auto simp: map_of_assign)
  with Cons.IH[OF rest k(2)] show ?case by simp
qed

section \<open>Cardinality: rules without a match\<close>

text \<open>
  C1: a rule that is not \<open>multi\<close> and whose selector matches nothing below the context
  node writes no key and raises no error: the rule list with it resolves as the list
  without it, the rule alone gives the empty mapping, and a mapping resolved from rules of
  which no other one has its name lacks the key.
\<close>

theorem single_no_match_omits_key:
  assumes "multi f \<noteq> Some True"
    and "cheerio_find L doc base (selector f) = []"
  shows "resolveSelectFields L (Fields (fs1 @ f # fs2)) doc base
           = resolveSelectFields L (Fields (fs1 @ fs2)) doc base
         \<and> resolveSelectFields L (Fields [f]) doc base = Inr empty_record
         \<and> (\<forall>r. resolveSelectFields L (Fields (fs1 @ f # fs2)) doc base = Inr r
                \<and> varName f \<notin> varName ` set (fs1 @ fs2)
              \<longrightarrow> map_of (snd r) (varName f) = None)"
proof -
  have skip: "resolve_loop L doc base (f # rest) acc = resolve_loop L doc base rest acc"
    for rest acc
    using assms by (intro resolve_loop_skip) simp
  have eq: "resolve_loop L doc base (fs1 @ f # fs2) empty_record
      = resolve_loop L doc base (fs1 @ fs2) empty_record"
    by (simp add: resolve_loop_append[of L doc base fs1] skip cong: sum.case_cong)
  have one: "resolve_loop L doc base [f] empty_record = Inr empty_record"
    using skip[of "[]" empty_record] by simp
  have "map_of (snd r) (varName f) = None"
    if "resolve_loop L doc base (fs1 @ f # fs2) empty_record = Inr r"
      and "varName f \<notin> varName ` set (fs1 @ fs2)" for r
    using resolve_loop_untouched_key[of L doc base "fs1 @ fs2" empty_record r "varName f"] that eq
    by (simp add: empty_record_def)
  with eq one show ?thesis by simp
qed

theorem single_no_match_omits_key_witness:
  "resolveSelectFields by_tag
     (Fields [Field (str ''t'') (str ''table'') (str ''text'') Undefined (Some False),
              Field (str ''items'') (str ''li'') (str ''text'') Undefined (Some True)])
     list_doc []
   = Inr (None, [(str ''items'', VArr [VStr (str ''A''), VStr (str ''B''), VStr (str ''C'')])])
   \<and> map_of [(str ''items'', VArr [VStr (str ''A''), VStr (str ''B''), VStr (str ''C'')])]
        (str ''t'') = None"
proof -
  let ?f = "Field (str ''t'') (str ''table'') (str ''text'') Undefined (Some False)"
  let ?g = "Field (str ''items'') (str ''li'') (str ''text'') Undefined (Some True)"
  let ?r = "(None, [(str ''items'', VArr [VStr (str ''A''), VStr (str ''B''), VStr (str ''C'')])])
    :: jsrecord"
  have "multi ?f \<noteq> Some True" by simp
  moreover have "cheerio_find by_tag list_doc [] (selector ?f) = []"
    by (simp add: fixture_defs)
  ultimately have inst:
    "resolveSelectFields by_tag (Fields ([] @ ?f # [?g])) list_doc []
       = resolveSelectFields by_tag (Fields ([] @ [?g])) list_doc []
     \<and> resolveSelectFields by_tag (Fields [?f]) list_doc [] = Inr empty_record
     \<and> (\<forall>r. resolveSelectFields by_tag (Fields ([] @ ?f # [?g])) list_doc [] = Inr r
            \<and> varName ?f \<notin> varName ` set ([] @ [?g])
          \<longrightarrow> map_of (snd r) (varName ?f) = None)"
    by (rule single_no_match_omits_key)
  have g: "resolveSelectFields by_tag (Fields [?g]) list_doc [] = Inr ?r"
    by (simp add: fixture_defs assign_defs resolve_loop.simps(2) formatText_def trim_def
        is_space_def replace_all_collapse)
  with inst have 1: "resolveSelectFields by_tag (Fields ([] @ ?f # [?g])) list_doc [] = Inr ?r"
    by simp
  have "varName ?f \<notin> varName ` set ([] @ [?g])"
    by simp
  with inst 1 have "map_of (snd ?r) (varName ?f) = None"
    by blast
  with 1 show ?thesis by simp
qed




text \<open>
  C10: a rule with an unknown \<open>valueType\<close> that is not \<open>multi\<close> and matches nothing is
  skipped without an error, and the rest of the rules is resolved; the error of such a
  rule is raised exactly when its selector is not empty and the rule is \<open>multi\<close> or
  matches a node.
\<close>

theorem unknown_valueType_no_match_is_skipped:
  assumes "valueType f \<notin> {str ''text'', str ''attr'', str ''object''}"
  shows "(multi f \<noteq> Some True \<and> cheerio_find L doc base (selector f) = []
           \<longrightarrow> resolve_loop L doc base (f # rest) acc = resolve_loop L doc base rest acc)
         \<and> (resolve_loop L doc base [f] acc = Inl (invalid_valueType f)
            \<longleftrightarrow> selector f \<noteq> []
                \<and> (multi f = Some True \<or> cheerio_find L doc base (selector f) \<noteq> []))"
proof -
  have a: "resolve_loop L doc base (f # rest) acc = resolve_loop L doc base rest acc"
    if "multi f \<noteq> Some True" "cheerio_find L doc base (selector f) = []"
    using that by (intro resolve_loop_skip) simp
  have b: "resolve_loop L doc base [f] acc = Inl (invalid_valueType f)"
    if "selector f \<noteq> []"
      "multi f = Some True \<or> cheerio_find L doc base (selector f) \<noteq> []"
    using assms that by (rule resolve_loop_invalid)
  have c: "resolve_loop L doc base [f] acc = Inr acc"
    if "\<not> (selector f \<noteq> []
      \<and> (multi f = Some True \<or> cheerio_find L doc base (selector f) \<noteq> []))"
    using that resolve_loop_skip[of f L doc base "[]" acc] by auto
  from a b c show ?thesis by (metis Inl_Inr_False)
qed

theorem unknown_valueType_no_match_is_skipped_witness:
  "resolveSelectFields by_tag
     (Fields [bogus_rule, Field (str ''items'') (str ''li'') (str ''attr'') (Str (str ''class'')) (Some True)])
     list_doc []
   = Inr (None, [(str ''items'', VArr [VStr (str ''x''), VStr [], VStr []])])"
proof -
  let ?g = "Field (str ''items'') (str ''li'') (str ''attr'') (Str (str ''class'')) (Some True)"
  have "valueType bogus_rule \<notin> {str ''text'', str ''attr'', str ''object''}"
    by (simp add: bogus_rule_def)
  moreover have "multi bogus_rule \<noteq> Some True
      \<and> cheerio_find by_tag list_doc [] (selector bogus_rule) = []"
    by (simp add: fixture_defs)
  ultimately have "resolve_loop by_tag list_doc [] (bogus_rule # [?g]) empty_record
      = resolve_loop by_tag list_doc [] [?g] empty_record"
    using unknown_valueType_no_match_is_skipped[of bogus_rule by_tag list_doc "[]" "[?g]"
        empty_record]
    by blast
  moreover have "resolve_loop by_tag list_doc [] [?g] empty_record
      = Inr (None, [(str ''items'', VArr [VStr (str ''x''), VStr [], VStr []])])"
    by (simp add: fixture_defs assign_defs resolve_loop.simps(2))
  ultimately show ?thesis by simp
qed

section \<open>Values of matched nodes\<close>

lemma resolve_loop_single:
  assumes "selector f \<noteq> []" "multi f \<noteq> Some True"
    and "cheerio_find L doc base (selector f) = el # others"
  shows "resolve_loop L doc base (f # rest) acc =
     (if valueType f = str ''text'' then
        resolve_loop L doc base rest
          (assign (varName f) (VStr (formatText (cheerio_text L doc el))) acc)
      else if valueType f = str ''attr'' then
        resolve_loop L doc base rest
          (assign (varName f) (or_empty (cheerio_attr L doc el (valueBy f))) acc)
      else if valueType f = str ''object'' then
        (case resolveSelectFields L (valueBy f) doc el of
           Inl e \<Rightarrow> Inl e
         | Inr sub \<Rightarrow> resolve_loop L doc base rest (assign (varName f) (VRec sub) acc))
      else Inl (invalid_valueType f))"
  using assms by (simp add: resolve_loop.simps(2))

lemma resolve_loop_multi:
  assumes "selector f \<noteq> []" "multi f = Some True"
  shows "resolve_loop L doc base (f # rest) acc =
     (if valueType f = str ''text'' then
        resolve_loop L doc base rest
          (assign (varName f)
             (VArr (map (\<lambda>el. VStr (formatText (cheerio_text L doc el)))
                        (cheerio_find L doc base (selector f)))) acc)
      else if valueType f = str ''attr'' then
        resolve_loop L doc base rest
          (assign (varName f)
             (VArr (map (\<lambda>el. or_empty (cheerio_attr L doc el (valueBy f)))
                        (cheerio_find L doc base (selector f)))) acc)
      else if valueType f = str ''object'' then
        (case collect (map (\<lambda>el. resolveSelectFields L (valueBy f) doc el)
                           (cheerio_find L doc base (selector f))) of
           Inl e \<Rightarrow> Inl e
         | Inr subRecords \<Rightarrow>
             resolve_loop L doc base rest
               (assign (varName f) (VArr (map VRec subRecords)) acc))
      else Inl (invalid_valueType f))"
  using assms by (simp add: resolve_loop.simps(2))

text \<open>
  C4: under an \<open>attr\<close> rule whose \<open>valueBy\<close> is the attribute name, the value of a matched
  element that has no such attribute is the empty string, in the \<open>multi\<close> branch (one
  value for each match) and in the single branch (the first match); the rule raises no
  error and the loop goes on.
\<close>

theorem attr_absent_is_empty_string:
  assumes "selector f \<noteq> []"
    and "valueType f = str ''attr''"
    and "valueBy f = Str name"
    and "cheerio_find L doc base (selector f) = el # others"
  shows "resolve_loop L doc base (f # rest) acc =
           resolve_loop L doc base rest
             (assign (varName f)
                (if multi f = Some True
                 then VArr (map (\<lambda>n. or_empty (cheerio_attr L doc n (Str name))) (el # others))
                 else or_empty (cheerio_attr L doc el (Str name)))
                acc)
         \<and> (\<forall>n t as cs. node_at doc n = Some (Element t as cs) \<and> map_of as name = None
               \<longrightarrow> or_empty (cheerio_attr L doc n (Str name)) = VStr [])"
proof -
  have "resolve_loop L doc base (f # rest) acc =
           resolve_loop L doc base rest
             (assign (varName f)
                (if multi f = Some True
                 then VArr (map (\<lambda>n. or_empty (cheerio_attr L doc n (Str name))) (el # others))
                 else or_empty (cheerio_attr L doc el (Str name)))
                acc)"
  proof (cases "multi f = Some True")
    case True
    with assms show ?thesis by (simp add: resolve_loop_multi)
  next
    case False
    with assms show ?thesis by (simp add: resolve_loop_single)
  qed
  moreover have "or_empty (cheerio_attr L doc n (Str name)) = VStr []"
    if "node_at doc n = Some (Element t as cs)" "map_of as name = None" for n t as cs
    using that by (simp add: cheerio_attr_def or_empty_def)
  ultimately show ?thesis by blast
qed

theorem attr_absent_is_empty_string_witness:
  "resolveSelectFields by_tag
     (Fields [Field (str ''first'') (str ''li'') (str ''attr'') (Str (str ''id'')) None,
              Field (str ''all'') (str ''li'') (str ''attr'') (Str (str ''class'')) (Some True)])
     list_doc []
   = Inr (None, [(str ''first'', VStr []),
                 (str ''all'', VArr [VStr (str ''x''), VStr [], VStr []])])"
proof -
  let ?f = "Field (str ''first'') (str ''li'') (str ''attr'') (Str (str ''id'')) None"
  let ?g = "Field (str ''all'') (str ''li'') (str ''attr'') (Str (str ''class'')) (Some True)"
  have find: "cheerio_find by_tag list_doc [] (str ''li'') = [0, 1, 0, 0] # [[0, 1, 0, 1], [0, 1, 0, 2]]"
    by (simp add: fixture_defs)
  have "selector ?f \<noteq> []" "valueType ?f = str ''attr''" "valueBy ?f = Str (str ''id'')"
    "cheerio_find by_tag list_doc [] (selector ?f) = [0, 1, 0, 0] # [[0, 1, 0, 1], [0, 1, 0, 2]]"
    using find by simp_all
  from attr_absent_is_empty_string[OF this, of "[?g]" empty_record]
  have 1: "resolve_loop by_tag list_doc [] [?f, ?g] empty_record
      = resolve_loop by_tag list_doc [] [?g]
          (assign (str ''first'')
             (or_empty (cheerio_attr by_tag list_doc [0, 1, 0, 0] (Str (str ''id''))))
             empty_record)"
    by simp
  have "selector ?g \<noteq> []" "valueType ?g = str ''attr''" "valueBy ?g = Str (str ''class'')"
    "cheerio_find by_tag list_doc [] (selector ?g) = [0, 1, 0, 0] # [[0, 1, 0, 1], [0, 1, 0, 2]]"
    using find by simp_all
  from attr_absent_is_empty_string[OF this, of "[]"]
  have 2: "\<And>acc. resolve_loop by_tag list_doc [] [?g] acc
      = Inr (assign (str ''all'')
          (VArr (map (\<lambda>n. or_empty (cheerio_attr by_tag list_doc n (Str (str ''class''))))
             [[0, 1, 0, 0], [0, 1, 0, 1], [0, 1, 0, 2]])) acc)"
    by simp
  have "resolveSelectFields by_tag (Fields [?f, ?g]) list_doc []
      = resolve_loop by_tag list_doc [] [?f, ?g] empty_record"
    by simp
  also note 1
  also note 2
  also have "Inr (assign (str ''all'')
          (VArr (map (\<lambda>n. or_empty (cheerio_attr by_tag list_doc n (Str (str ''class''))))
             [[0, 1, 0, 0], [0, 1, 0, 1], [0, 1, 0, 2]]))
          (assign (str ''first'')
             (or_empty (cheerio_attr by_tag list_doc [0, 1, 0, 0] (Str (str ''id''))))
             empty_record))
      = (Inr (None, [(str ''first'', VStr []),
                     (str ''all'', VArr [VStr (str ''x''), VStr [], VStr []])])
         :: error + jsrecord)"
    by (simp add: fixture_defs assign_defs)
  finally show ?thesis .
qed

section \<open>Unknown value types\<close>

lemma collect_isl: "isl (collect xs) \<longleftrightarrow> (\<exists>x \<in> set xs. isl x)"
  by (induction xs) (auto split: sum.splits)

lemma nested_error_aborts:
  assumes "selector g \<noteq> []"
    and "valueType g = str ''object''"
    and "n \<in> set (if multi g = Some True then cheerio_find L doc base (selector g)
                  else take 1 (cheerio_find L doc base (selector g)))"
    and "isl (resolveSelectFields L (valueBy g) doc n)"
  shows "isl (resolve_loop L doc base (g # rest) acc)"
proof (cases "multi g = Some True")
  case True
  with assms(3,4)
  have "isl (collect (map (\<lambda>el. resolveSelectFields L (valueBy g) doc el)
                          (cheerio_find L doc base (selector g))))"
    by (auto simp: collect_isl)
  with True assms(1,2) show ?thesis
    by (auto simp: resolve_loop_multi split: sum.splits)
next
  case False
  with assms(3) obtain others where
    "cheerio_find L doc base (selector g) = n # others"
    by (cases "cheerio_find L doc base (selector g)") auto
  with False assms(1,2,4) show ?thesis
    by (auto simp: resolve_loop_single split: sum.splits)
qed

text \<open>
  C5, as the code has it: a rule with an unknown \<open>valueType\<close> raises the invalid rule
  error when its selector is not empty and it is \<open>multi\<close> or matches a node. Then the
  loop ends with that error whatever it had collected, a rule list whose earlier rules
  resolve ends with it, the message starts with the name of the rule, and an \<open>object\<close>
  rule around a failing nested call fails as well. A rule with an unknown \<open>valueType\<close>
  whose selector is empty, or that is not \<open>multi\<close> and matches nothing, is skipped.
\<close>

theorem invalid_valueType_raises:
  assumes "valueType f \<notin> {str ''text'', str ''attr'', str ''object''}"
    and "selector f \<noteq> []"
    and "multi f = Some True \<or> cheerio_find L doc base (selector f) \<noteq> []"
  shows "resolve_loop L doc base (f # rest) acc = Inl (invalid_valueType f)
         \<and> resolveSelectFields L (Fields (fs1 @ f # fs2)) doc base
             = (case resolveSelectFields L (Fields fs1) doc base of
                  Inl e \<Rightarrow> Inl e
                | Inr r \<Rightarrow> Inl (invalid_valueType f))
         \<and> (\<exists>tail. invalid_valueType f = NodeOperationError (varName f @ tail) NoOptions)
         \<and> (\<forall>g n ctx rest' acc'.
               selector g \<noteq> [] \<and> valueType g = str ''object''
               \<and> n \<in> set (if multi g = Some True then cheerio_find L doc ctx (selector g)
                            else take 1 (cheerio_find L doc ctx (selector g)))
               \<and> isl (resolveSelectFields L (valueBy g) doc n)
               \<longrightarrow> isl (resolve_loop L doc ctx (g # rest') acc'))
         \<and> (\<forall>g ctx rest' acc'.
               valueType g \<notin> {str ''text'', str ''attr'', str ''object''}
               \<and> (selector g = []
                    \<or> (multi g \<noteq> Some True \<and> cheerio_find L doc ctx (selector g) = []))
               \<longrightarrow> resolve_loop L doc ctx (g # rest') acc' = resolve_loop L doc ctx rest' acc')"
proof -
  have a: "resolve_loop L doc base (f # rest) acc = Inl (invalid_valueType f)" for rest acc
    using assms by (rule resolve_loop_invalid)
  have b: "resolveSelectFields L (Fields (fs1 @ f # fs2)) doc base
             = (case resolveSelectFields L (Fields fs1) doc base of
                  Inl e \<Rightarrow> Inl e
                | Inr r \<Rightarrow> Inl (invalid_valueType f))"
    by (simp add: resolve_loop_append[of L doc base fs1] a cong: sum.case_cong)
  have c: "\<exists>tail. invalid_valueType f = NodeOperationError (varName f @ tail) NoOptions"
    unfolding invalid_valueType_def by blast
  have d: "\<forall>g n ctx rest' acc'.
               selector g \<noteq> [] \<and> valueType g = str ''object''
               \<and> n \<in> set (if multi g = Some True then cheerio_find L doc ctx (selector g)
                            else take 1 (cheerio_find L doc ctx (selector g)))
               \<and> isl (resolveSelectFields L (valueBy g) doc n)
               \<longrightarrow> isl (resolve_loop L doc ctx (g # rest') acc')"
    using nested_error_aborts by blast
  have e: "\<forall>g ctx rest' acc'.
               valueType g \<notin> {str ''text'', str ''attr'', str ''object''}
               \<and> (selector g = []
                    \<or> (multi g \<noteq> Some True \<and> cheerio_find L doc ctx (selector g) = []))
               \<longrightarrow> resolve_loop L doc ctx (g # rest') acc' = resolve_loop L doc ctx rest' acc'"
    using resolve_loop_skip by blast
  from a[of rest acc] b c d e show ?thesis by (intro conjI)
qed

theorem invalid_valueType_raises_witness:
  "resolveSelectFields by_tag
     (Fields [Field (str ''items'') (str ''li'') (str ''text'') Undefined (Some True),
              Field (str ''n'') (str ''ul'') (str ''bogus'') Undefined None])
     list_doc []
   = Inl (NodeOperationError
            (str ''n: '' @ [0x975E, 0x6CD5, 0x7684] @ str ''valueType: bogus'') NoOptions)"
proof -
  let ?g = "Field (str ''items'') (str ''li'') (str ''text'') Undefined (Some True)"
  let ?f = "Field (str ''n'') (str ''ul'') (str ''bogus'') Undefined None"
  have "valueType ?f \<notin> {str ''text'', str ''attr'', str ''object''}" "selector ?f \<noteq> []"
    by simp_all
  moreover have "multi ?f = Some True \<or> cheerio_find by_tag list_doc [] (selector ?f) \<noteq> []"
    by (simp add: fixture_defs)
  ultimately have "resolveSelectFields by_tag (Fields ([?g] @ ?f # [])) list_doc []
      = (case resolveSelectFields by_tag (Fields [?g]) list_doc [] of
           Inl e \<Rightarrow> Inl e
         | Inr r \<Rightarrow> Inl (invalid_valueType ?f))"
    using invalid_valueType_raises[of ?f by_tag list_doc "[]" "[]" empty_record "[?g]" "[]"]
    by blast
  moreover have "resolveSelectFields by_tag (Fields [?g]) list_doc []
      = Inr (None, [(str ''items'', VArr [VStr (str ''A''), VStr (str ''B''), VStr (str ''C'')])])"
    by (simp add: fixture_defs assign_defs resolve_loop.simps(2) formatText_def trim_def
        is_space_def replace_all_collapse)
  ultimately show ?thesis by (simp add: invalid_valueType_def)
qed

theorem unknown_valueType_without_match_counterexample:
  "resolveSelectFields by_tag
     (Fields [Field (str ''x'') (str ''b'') (str ''bogus'') Undefined None])
     list_doc []
   = Inr (None, [])"
  by (simp add: fixture_defs assign_defs resolve_loop.simps(2))

section \<open>Scope and order of the matches\<close>

lemma desc_paths_shape:
  "[] \<notin> set (descendants n)"
  "\<forall>p \<in> set (desc_list i cs). \<exists>j q. p = j # q \<and> i \<le> j"
  by (induction n and i cs rule: descendants_desc_list.induct) fastforce+

lemma doc_before_Nil: "doc_before [] q \<longleftrightarrow> q \<noteq> []"
  by (cases q) simp_all

lemma desc_paths_sorted:
  "sorted_wrt doc_before (descendants n)"
  "sorted_wrt doc_before (desc_list i cs)"
proof (induction n and i cs rule: descendants_desc_list.induct)
  case (4 i c cs)
  have below: "sorted_wrt doc_before ([i] # map ((#) i) (descendants c))"
    using 4(1) desc_paths_shape(1)[of c]
    by (auto simp: sorted_wrt_map doc_before_Nil)
  have across: "doc_before p q"
    if "p \<in> set ([i] # map ((#) i) (descendants c))" "q \<in> set (desc_list (Suc i) cs)" for p q
  proof -
    from that(2) desc_paths_shape(2)[of "Suc i" cs]
    obtain j r where "q = j # r" "Suc i \<le> j" by blast
    moreover from that(1) obtain r' where "p = i # r'" by auto
    ultimately show ?thesis by simp
  qed
  from below 4(2) across show ?case
    by (simp only: descendants.simps desc_list.simps sorted_wrt_append) blast
qed simp_all

lemma doc_before_append: "doc_before (base @ p) (base @ q) = doc_before p q"
  by (induction base) simp_all

lemma cheerio_find_scoped:
  assumes "p \<in> set (cheerio_find L doc ctx sel)"
  shows "strict_prefix ctx p \<and> is_element doc p \<and> selector_matches L sel doc p"
proof -
  from assms obtain n where n: "node_at doc ctx = Some n"
    by (cases "node_at doc ctx") (auto simp: cheerio_find_def)
  with assms have "p \<in> (@) ctx ` set (descendants n)"
    and m: "is_element doc p \<and> selector_matches L sel doc p"
    by (auto simp: cheerio_find_def)
  then obtain q where q: "q \<in> set (descendants n)" "p = ctx @ q"
    by blast
  from q desc_paths_shape(1)[of n] have "q \<noteq> []" by auto
  with q(2) have "strict_prefix ctx p" by (simp add: strict_prefix_def prefix_def)
  with m show ?thesis by simp
qed

lemma cheerio_find_sorted: "sorted_wrt doc_before (cheerio_find L doc ctx sel)"
proof (cases "node_at doc ctx")
  case None
  then show ?thesis by (simp add: cheerio_find_def)
next
  case (Some n)
  have "sorted_wrt doc_before (map ((@) ctx) (descendants n))"
    by (simp add: sorted_wrt_map doc_before_append desc_paths_sorted(1))
  then show ?thesis
    by (simp add: cheerio_find_def Some sorted_wrt_filter)
qed

lemma collect_map_Inr: "collect (map Inr xs) = Inr xs"
  by (induction xs) simp_all

lemma collect_first_error:
  "\<forall>x \<in> set xs. \<not> isl x \<Longrightarrow> collect (xs @ Inl e # ys) = Inl e"
  by (induction xs) (auto split: sum.splits)

text \<open>
  C6: an \<open>object\<close> rule resolves its nested rules with the matched node as the context
  node: the first match when it is not \<open>multi\<close>; every match, in order, when it is
  \<open>multi\<close>, where the nested mappings are collected into the array bound to the name, and
  the error of the first failing match ends the loop. A query selects only elements
  strictly below its context node that match the selector: what a nested rule selects
  lies below the matched node, never beside it.
\<close>

theorem object_rule_scopes_to_match:
  assumes "selector f \<noteq> []"
    and "valueType f = str ''object''"
    and "cheerio_find L doc base (selector f) = el # others"
  shows "(multi f \<noteq> Some True \<longrightarrow>
            resolve_loop L doc base (f # rest) acc =
              (case resolveSelectFields L (valueBy f) doc el of
                 Inl e \<Rightarrow> Inl e
               | Inr sub \<Rightarrow>
                   resolve_loop L doc base rest (assign (varName f) (VRec sub) acc)))
         \<and> (multi f = Some True \<longrightarrow>
              (\<forall>subs. map (\<lambda>n. resolveSelectFields L (valueBy f) doc n) (el # others)
                         = map Inr subs
                 \<longrightarrow> resolve_loop L doc base (f # rest) acc =
                       resolve_loop L doc base rest
                         (assign (varName f) (VArr (map VRec subs)) acc))
              \<and> (\<forall>before n after e.
                    el # others = before @ n # after
                    \<and> (\<forall>m \<in> set before. \<not> isl (resolveSelectFields L (valueBy f) doc m))
                    \<and> resolveSelectFields L (valueBy f) doc n = Inl e
                  \<longrightarrow> resolve_loop L doc base (f # rest) acc = Inl e))
         \<and> (\<forall>ctx sel p. p \<in> set (cheerio_find L doc ctx sel)
               \<longrightarrow> strict_prefix ctx p \<and> is_element doc p \<and> selector_matches L sel doc p)
         \<and> (\<forall>sel p. \<not> strict_prefix el p \<longrightarrow> p \<notin> set (cheerio_find L doc el sel))"
proof -
  have single: "resolve_loop L doc base (f # rest) acc =
              (case resolveSelectFields L (valueBy f) doc el of
                 Inl e \<Rightarrow> Inl e
               | Inr sub \<Rightarrow>
                   resolve_loop L doc base rest (assign (varName f) (VRec sub) acc))"
    if "multi f \<noteq> Some True"
    using assms that by (simp add: resolve_loop_single)
  have all_good: "resolve_loop L doc base (f # rest) acc =
                       resolve_loop L doc base rest
                         (assign (varName f) (VArr (map VRec subs)) acc)"
    if "multi f = Some True"
      and "map (\<lambda>n. resolveSelectFields L (valueBy f) doc n) (el # others) = map Inr subs"
    for subs
  proof -
    from that(2) have "collect (map (\<lambda>n. resolveSelectFields L (valueBy f) doc n)
                                  (cheerio_find L doc base (selector f))) = Inr subs"
      by (simp only: assms(3) collect_map_Inr)
    with assms(1,2) that(1) show ?thesis
      by (simp add: resolve_loop_multi)
  qed
  have first_bad: "resolve_loop L doc base (f # rest) acc = Inl e"
    if "multi f = Some True" and "el # others = before @ n # after"
      and "\<forall>m \<in> set before. \<not> isl (resolveSelectFields L (valueBy f) doc m)"
      and "resolveSelectFields L (valueBy f) doc n = Inl e"
    for before n after e
  proof -
    have "collect (map (\<lambda>n. resolveSelectFields L (valueBy f) doc n) (before @ n # after))
        = Inl e"
      using that(3,4) collect_first_error[of "map (\<lambda>n. resolveSelectFields L (valueBy f) doc n) before"
          e "map (\<lambda>n. resolveSelectFields L (valueBy f) doc n) after"]
      by simp
    then have "collect (map (\<lambda>n. resolveSelectFields L (valueBy f) doc n)
                            (cheerio_find L doc base (selector f))) = Inl e"
      by (simp only: assms(3) that(2))
    with assms(1,2) that(1) show ?thesis
      by (simp add: resolve_loop_multi)
  qed
  have scoped: "\<forall>ctx sel p. p \<in> set (cheerio_find L doc ctx sel)
               \<longrightarrow> strict_prefix ctx p \<and> is_element doc p \<and> selector_matches L sel doc p"
    using cheerio_find_scoped by blast
  then have beside: "\<forall>sel p. \<not> strict_prefix el p \<longrightarrow> p \<notin> set (cheerio_find L doc el sel)"
    by blast
  from single all_good first_bad scoped beside show ?thesis
    by (intro conjI impI allI) blast+
qed

theorem object_rule_scopes_to_match_witness:
  "resolveSelectFields by_tag
     (Fields [Field (str ''first'') (str ''div'') (str ''object'')
                (Fields [Field (str ''s'') (str ''span'') (str ''text'') Undefined (Some True)])
                None,
              Field (str ''each'') (str ''div'') (str ''object'')
                (Fields [Field (str ''s'') (str ''span'') (str ''text'') Undefined (Some True)])
                (Some True)])
     two_div_doc []
   = Inr (None,
          [(str ''first'', VRec (None, [(str ''s'', VArr [VStr (str ''a'')])])),
           (str ''each'', VArr [VRec (None, [(str ''s'', VArr [VStr (str ''a'')])]),
                                VRec (None, [(str ''s'', VArr [VStr (str ''b'')])])])])
   \<and> selector_matches by_tag (str ''span'') two_div_doc [0, 1, 2]
   \<and> [0, 1, 2] \<notin> set (cheerio_find by_tag two_div_doc [0, 1, 0] (str ''span''))
   \<and> selector_matches by_tag (str ''span'') two_div_doc [0, 1, 1, 0]
   \<and> [0, 1, 1, 0] \<notin> set (cheerio_find by_tag two_div_doc [0, 1, 0] (str ''span''))"
proof -
  let ?s = "Field (str ''s'') (str ''span'') (str ''text'') Undefined (Some True)"
  let ?first = "Field (str ''first'') (str ''div'') (str ''object'') (Fields [?s]) None"
  let ?each = "Field (str ''each'') (str ''div'') (str ''object'') (Fields [?s]) (Some True)"
  let ?a = "(None, [(str ''s'', VArr [VStr (str ''a'')])]) :: jsrecord"
  let ?b = "(None, [(str ''s'', VArr [VStr (str ''b'')])]) :: jsrecord"
  let ?acc = "assign (varName ?first) (VRec ?a) empty_record"
  have f1: "cheerio_find by_tag two_div_doc [] (selector ?first) = [0, 1, 0] # [[0, 1, 1]]"
    by (simp add: fixture_defs)
  have f2: "cheerio_find by_tag two_div_doc [] (selector ?each) = [0, 1, 0] # [[0, 1, 1]]"
    by (simp add: fixture_defs)
  have s1: "selector ?first \<noteq> []" "valueType ?first = str ''object''"
    by simp_all
  have s2: "selector ?each \<noteq> []" "valueType ?each = str ''object''"
    by simp_all
  note one = object_rule_scopes_to_match[OF s1 f1, of "[?each]" empty_record]
  note many = object_rule_scopes_to_match[OF s2 f2, of "[]" ?acc]
  have inner_a: "resolveSelectFields by_tag (Fields [?s]) two_div_doc [0, 1, 0] = Inr ?a"
    by (simp add: fixture_defs assign_defs resolve_loop.simps(2) formatText_def trim_def
        is_space_def replace_all_collapse)
  have inner_b: "resolveSelectFields by_tag (Fields [?s]) two_div_doc [0, 1, 1] = Inr ?b"
    by (simp add: fixture_defs assign_defs resolve_loop.simps(2) formatText_def trim_def
        is_space_def replace_all_collapse)
  have "multi ?first \<noteq> Some True"
    by simp
  with one have "resolve_loop by_tag two_div_doc [] (?first # [?each]) empty_record
      = (case resolveSelectFields by_tag (valueBy ?first) two_div_doc [0, 1, 0] of
           Inl e \<Rightarrow> Inl e
         | Inr sub \<Rightarrow>
             resolve_loop by_tag two_div_doc [] [?each]
               (assign (varName ?first) (VRec sub) empty_record))"
    by blast
  then have step1: "resolve_loop by_tag two_div_doc [] (?first # [?each]) empty_record
      = resolve_loop by_tag two_div_doc [] [?each] ?acc"
    using inner_a by simp
  have "multi ?each = Some True"
    by simp
  moreover have "map (\<lambda>n. resolveSelectFields by_tag (valueBy ?each) two_div_doc n)
                    ([0, 1, 0] # [[0, 1, 1]])
      = map Inr [?a, ?b]"
    using inner_a inner_b by simp
  ultimately have step2: "resolve_loop by_tag two_div_doc [] (?each # []) ?acc
      = resolve_loop by_tag two_div_doc [] []
          (assign (varName ?each) (VArr (map VRec [?a, ?b])) ?acc)"
    using many by blast
  have "resolveSelectFields by_tag (Fields [?first, ?each]) two_div_doc []
      = resolve_loop by_tag two_div_doc [] (?first # [?each]) empty_record"
    by simp
  also note step1
  also note step2
  also have "resolve_loop by_tag two_div_doc [] []
          (assign (varName ?each) (VArr (map VRec [?a, ?b])) ?acc)
      = Inr (None, [(str ''first'', VRec ?a), (str ''each'', VArr [VRec ?a, VRec ?b])])"
    by (simp add: assign_defs)
  finally have 1: "resolveSelectFields by_tag (Fields [?first, ?each]) two_div_doc []
      = Inr (None, [(str ''first'', VRec ?a), (str ''each'', VArr [VRec ?a, VRec ?b])])" .
  have 2: "selector_matches by_tag (str ''span'') two_div_doc [0, 1, 2]"
    "selector_matches by_tag (str ''span'') two_div_doc [0, 1, 1, 0]"
    by (simp_all add: fixture_defs)
  have "\<not> strict_prefix [0, 1, 0] [0, 1, 2::nat]" "\<not> strict_prefix [0, 1, 0] [0, 1, 1, 0::nat]"
    by (simp_all add: strict_prefix_def)
  with one have 3: "[0, 1, 2] \<notin> set (cheerio_find by_tag two_div_doc [0, 1, 0] (str ''span''))"
    "[0, 1, 1, 0] \<notin> set (cheerio_find by_tag two_div_doc [0, 1, 0] (str ''span''))"
    by blast+
  from 1 2 3 show ?thesis by blast
qed

text \<open>
  The order of the rules. A rule either fails, or leaves the mapping as it is, or assigns
  one value, which does not depend on the mapping, under its name; with
  \<open>resolve_loop_append\<close> a rule list is the sequence of these assignments from left to
  right. When the name is not \<^verbatim>\<open>__proto__\<close> the assignment of the last rule is the
  binding found in the result.
\<close>

lemma rule_effect:
  "\<exists>w. \<forall>acc. resolve_loop L doc base [f] acc =
     (case w of
        Inl e \<Rightarrow> Inl e
      | Inr None \<Rightarrow> Inr acc
      | Inr (Some v) \<Rightarrow> Inr (assign (varName f) v acc))"
proof (cases "selector f = []
    \<or> (multi f \<noteq> Some True \<and> cheerio_find L doc base (selector f) = [])")
  case True
  then have "\<forall>acc. resolve_loop L doc base [f] acc = Inr acc"
    by (simp add: resolve_loop_skip)
  then show ?thesis
    by (intro exI[of _ "Inr None"]) simp
next
  case False
  show ?thesis
  proof (cases "resolve_loop L doc base [f] empty_record")
    case (Inl e)
    with False have "\<forall>acc. resolve_loop L doc base [f] acc = Inl e"
      by (auto simp: resolve_loop.simps(2) split: if_splits sum.splits list.splits)
    then show ?thesis
      by (intro exI[of _ "Inl e"]) simp
  next
    case (Inr r)
    with False obtain v where "\<forall>acc. resolve_loop L doc base [f] acc = Inr (assign (varName f) v acc)"
      by (auto simp: resolve_loop.simps(2) split: if_splits sum.splits list.splits)
    then show ?thesis
      by (intro exI[of _ "Inr (Some v)"]) simp
  qed
qed

lemma last_rule_wins:
  assumes "varName f \<noteq> str ''__proto__''"
    and "resolveSelectFields L (Fields fs1) doc base = Inr acc"
    and "resolve_loop L doc base [f] acc = Inr (assign (varName f) v acc)"
  shows "resolveSelectFields L (Fields (fs1 @ [f])) doc base = Inr (assign (varName f) v acc)
         \<and> map_of (snd (assign (varName f) v acc)) (varName f) = Some v"
  using assms by (simp add: resolve_loop_append[of L doc base fs1] map_of_assign)

text \<open>
  C7 at two rules named \<^verbatim>\<open>__proto__\<close>, an \<open>object\<close> rule and then a \<open>text\<close> rule, both
  with a match: the record of the first becomes the prototype of the result, the string
  of the second is ignored by the setter, and the result has no key at all: the later
  rule does not replace what the earlier one wrote.
\<close>

theorem later_proto_rule_does_not_overwrite:
  "resolveSelectFields by_tag
     (Fields [Field (str ''__proto__'') (str ''ul'') (str ''object'') (Fields []) None,
              Field (str ''__proto__'') (str ''li'') (str ''text'') Undefined None])
     list_doc []
   = Inr (Some (VRec (None, [])), [])
   \<and> resolveSelectFields by_tag
       (Fields [Field (str ''name'') (str ''ul'') (str ''object'') (Fields []) None,
                Field (str ''name'') (str ''li'') (str ''text'') Undefined None])
       list_doc []
     = Inr (None, [(str ''name'', VStr (str ''A''))])"
  by (simp add: fixture_defs assign_defs resolve_loop.simps(2) formatText_def trim_def
      is_space_def replace_all_collapse)

section \<open>The batch loop\<close>




lemma upt_shift:
  "[idx ..< idx + length (x # xs)] = idx # [Suc idx ..< Suc idx + length xs]"
proof -
  have "idx < idx + length (x # xs)" by simp
  from upt_conv_Cons[OF this] show ?thesis
    by (simp only: length_Cons add_Suc_right add_Suc)
qed

lemma execute_loop_continue:
  "execute_loop L True idx items rd =
     Inr (rd @ concat (map (\<lambda>(i, it). contribution L i it)
                           (zip [idx ..< idx + length items] items)))"
proof (induction items arbitrary: idx rd)
  case Nil
  then show ?case by simp
next
  case (Cons it items)
  have "execute_loop L True idx (it # items) rd
      = execute_loop L True (Suc idx) items (rd @ contribution L idx it)"
    by (simp add: contribution_def split: prod.splits option.splits)
  also have "\<dots> = Inr ((rd @ contribution L idx it)
      @ concat (map (\<lambda>(i, it). contribution L i it)
                    (zip [Suc idx ..< Suc idx + length items] items)))"
    by (rule Cons.IH)
  also have "\<dots> = Inr (rd @ concat (map (\<lambda>(i, it). contribution L i it)
      (zip (idx # [Suc idx ..< Suc idx + length items]) (it # items))))"
    by (simp only: zip_Cons_Cons list.map concat.simps case_prod_conv append_assoc)
  finally show ?case
    by (simp only: upt_shift)
qed










section \<open>The shape of \<open>valueBy\<close>\<close>

lemma collect_const: "collect (map (\<lambda>n. Inr c) xs) = Inr (map (\<lambda>n. c) xs)"
  by (induction xs) simp_all

lemma execute_first_item_fails:
  assumes "try_item L 0 it = (pushed, Some e)"
  shows "execute L False (it # items) = Inl e"
    and "\<exists>outs. execute L True (it # items) = Inr (pushed @ error_item L 0 e # outs)"
proof -
  show "execute L False (it # items) = Inl e"
    using assms by (simp add: execute_def)
  have "execute L True (it # items)
      = execute_loop L True (Suc 0) items ([] @ pushed @ [error_item L 0 e])"
    using assms by (simp add: execute_def)
  also have "\<dots> = Inr (([] @ pushed @ [error_item L 0 e])
      @ concat (map (\<lambda>(i, it). contribution L i it)
                    (zip [Suc 0 ..< Suc 0 + length items] items)))"
    by (rule execute_loop_continue)
  finally show "\<exists>outs. execute L True (it # items) = Inr (pushed @ error_item L 0 e # outs)"
    by simp
qed

text \<open>
  C9, as the code has it. The shape of \<open>valueBy\<close> is never checked. A \<open>text\<close> rule never
  reads it: with any \<open>valueBy\<close> the rule resolves as with any other. An \<open>object\<close> rule
  with a match whose \<open>valueBy\<close> is a string binds an empty record (\<open>multi\<close>: one for each
  match). An \<open>object\<close> rule with a match whose \<open>valueBy\<close> is absent, \<^verbatim>\<open>null\<close>, a boolean, a
  number or an object that is not an array ends the loop with the \<^verbatim>\<open>TypeError\<close> of the
  iteration, which is not the invalid rule error. An error of the resolver ends the
  extraction of the HTML string, and the error of an item aborts the batch or, with
  \<^verbatim>\<open>continueOnFail()\<close>, is replaced by the placeholder of that item.
\<close>

theorem valueBy_shape_is_not_checked:
  "resolve_loop L doc base (Field n s (str ''text'') v m # rest) acc
     = resolve_loop L doc base (Field n s (str ''text'') v' m # rest) acc
   \<and> (selector f \<noteq> [] \<and> valueType f = str ''object''
        \<and> cheerio_find L doc base (selector f) = el # others
      \<longrightarrow> (\<forall>name. valueBy f = Str name \<longrightarrow>
              resolve_loop L doc base (f # rest) acc
                = resolve_loop L doc base rest
                    (assign (varName f)
                       (if multi f = Some True
                        then VArr (map (\<lambda>n. VRec empty_record) (el # others))
                        else VRec empty_record)
                       acc))
          \<and> (valueBy f = Undefined \<or> (\<exists>j. valueBy f = Other j) \<longrightarrow>
              resolve_loop L doc base (f # rest) acc = Inl TypeError
              \<and> (\<forall>g. TypeError \<noteq> invalid_valueType g)))
   \<and> (resolveSelectFields L (Fields rules) (cheerio_load L html) [] = Inl e
      \<longrightarrow> extract_each L rules idx (html # htmls) = ([], Some e))
   \<and> (try_item L 0 it = (pushed, Some e)
      \<longrightarrow> execute L False (it # items) = Inl e
          \<and> (\<exists>outs. execute L True (it # items) = Inr (pushed @ error_item L 0 e # outs)))"
proof -
  have a: "resolve_loop L doc base (Field n s (str ''text'') v m # rest) acc
     = resolve_loop L doc base (Field n s (str ''text'') v' m # rest) acc"
    by (simp add: resolve_loop.simps(2) split: list.splits)
  have b: "resolve_loop L doc base (f # rest) acc
                = resolve_loop L doc base rest
                    (assign (varName f)
                       (if multi f = Some True
                        then VArr (map (\<lambda>n. VRec empty_record) (el # others))
                        else VRec empty_record)
                       acc)"
    if "selector f \<noteq> []" "valueType f = str ''object''"
      "cheerio_find L doc base (selector f) = el # others" "valueBy f = Str name" for name
  proof (cases "multi f = Some True")
    case True
    have col: "collect (map (\<lambda>el. resolveSelectFields L (valueBy f) doc el)
                            (cheerio_find L doc base (selector f)))
        = Inr (map (\<lambda>n. empty_record) (el # others))"
      by (simp only: that(3) that(4) resolveSelectFields.simps collect_const)
    have "resolve_loop L doc base (f # rest) acc
        = resolve_loop L doc base rest
            (assign (varName f) (VArr (map VRec (map (\<lambda>n. empty_record) (el # others)))) acc)"
      using resolve_loop_multi[OF that(1) True, of L doc base rest acc] that(2)
      unfolding col by simp
    with True show ?thesis by (simp add: comp_def)
  next
    case False
    with that show ?thesis by (simp add: resolve_loop_single)
  qed
  have c: "resolve_loop L doc base (f # rest) acc = Inl TypeError"
    if "selector f \<noteq> []" "valueType f = str ''object''"
      "cheerio_find L doc base (selector f) = el # others"
      "valueBy f = Undefined \<or> (\<exists>j. valueBy f = Other j)"
  proof -
    from that(4) have fail: "resolveSelectFields L (valueBy f) doc x = Inl TypeError" for x
      by auto
    show ?thesis
    proof (cases "multi f = Some True")
      case True
      with that(1,2,3) show ?thesis
        by (simp add: resolve_loop_multi fail)
    next
      case False
      with that(1,2,3) show ?thesis
        by (simp add: resolve_loop_single fail)
    qed
  qed
  have d: "\<forall>g. TypeError \<noteq> invalid_valueType g"
    by (simp add: invalid_valueType_def)
  have e: "resolveSelectFields L (Fields rules) (cheerio_load L html) [] = Inl e
      \<longrightarrow> extract_each L rules idx (html # htmls) = ([], Some e)"
    by simp
  have g: "try_item L 0 it = (pushed, Some e)
      \<longrightarrow> execute L False (it # items) = Inl e
          \<and> (\<exists>outs. execute L True (it # items) = Inr (pushed @ error_item L 0 e # outs))"
    using execute_first_item_fails by blast
  from a b c d e g show ?thesis by (intro conjI impI allI) blast+
qed

theorem valueBy_shape_is_not_checked_witness:
  "resolveSelectFields by_tag
     (Fields [Field (str ''u'') (str ''ul'') (str ''object'') (Str (str ''class'')) None,
              Field (str ''m'') (str ''li'') (str ''object'') (Str (str ''class'')) (Some True),
              Field (str ''v'') (str ''ul'') (str ''object'') (Other (str ''5'')) None])
     list_doc []
   = Inl TypeError
   \<and> resolveSelectFields by_tag
       (Fields [Field (str ''u'') (str ''ul'') (str ''object'') (Str (str ''class'')) None,
                Field (str ''m'') (str ''li'') (str ''object'') (Str (str ''class'')) (Some True)])
       list_doc []
     = Inr (None, [(str ''u'', VRec (None, [])),
                   (str ''m'', VArr [VRec (None, []), VRec (None, []), VRec (None, [])])])"
proof -
  let ?u = "Field (str ''u'') (str ''ul'') (str ''object'') (Str (str ''class'')) None"
  let ?m = "Field (str ''m'') (str ''li'') (str ''object'') (Str (str ''class'')) (Some True)"
  let ?v = "Field (str ''v'') (str ''ul'') (str ''object'') (Other (str ''5'')) None"
  let ?acc1 = "assign (varName ?u)
      (if multi ?u = Some True then VArr (map (\<lambda>n. VRec empty_record) ([0, 1, 0::nat] # []))
       else VRec empty_record) empty_record"
  let ?acc2 = "assign (varName ?m)
      (if multi ?m = Some True
       then VArr (map (\<lambda>n. VRec empty_record)
                      ([0, 1, 0, 0::nat] # [[0, 1, 0, 1], [0, 1, 0, 2]]))
       else VRec empty_record) ?acc1"
  have ul: "cheerio_find by_tag list_doc [] (str ''ul'') = [0, 1, 0] # []"
    by (simp add: fixture_defs)
  have li: "cheerio_find by_tag list_doc [] (str ''li'')
      = [0, 1, 0, 0] # [[0, 1, 0, 1], [0, 1, 0, 2]]"
    by (simp add: fixture_defs)
  have u: "selector ?u \<noteq> [] \<and> valueType ?u = str ''object''
      \<and> cheerio_find by_tag list_doc [] (selector ?u) = [0, 1, 0] # []"
    "valueBy ?u = Str (str ''class'')"
    using ul by simp_all
  have m: "selector ?m \<noteq> [] \<and> valueType ?m = str ''object''
      \<and> cheerio_find by_tag list_doc [] (selector ?m)
          = [0, 1, 0, 0] # [[0, 1, 0, 1], [0, 1, 0, 2]]"
    "valueBy ?m = Str (str ''class'')"
    using li by simp_all
  have v: "selector ?v \<noteq> [] \<and> valueType ?v = str ''object''
      \<and> cheerio_find by_tag list_doc [] (selector ?v) = [0, 1, 0] # []"
    "valueBy ?v = Undefined \<or> (\<exists>j. valueBy ?v = Other j)"
    using ul by simp_all
  have step_u: "resolve_loop by_tag list_doc [] (?u # rest) empty_record
      = resolve_loop by_tag list_doc [] rest ?acc1" for rest
    by (rule valueBy_shape_is_not_checked[where f = ?u and L = by_tag and doc = list_doc
          and base = "[]" and el = "[0, 1, 0]" and others = "[]" and rest = rest
          and acc = empty_record,
          THEN conjunct2, THEN conjunct1, THEN mp, OF u(1),
          THEN conjunct1, THEN spec, THEN mp, OF u(2)])
  have step_m: "resolve_loop by_tag list_doc [] (?m # rest) ?acc1
      = resolve_loop by_tag list_doc [] rest ?acc2" for rest
    by (rule valueBy_shape_is_not_checked[where f = ?m and L = by_tag and doc = list_doc
          and base = "[]" and el = "[0, 1, 0, 0]" and others = "[[0, 1, 0, 1], [0, 1, 0, 2]]"
          and rest = rest and acc = ?acc1,
          THEN conjunct2, THEN conjunct1, THEN mp, OF m(1),
          THEN conjunct1, THEN spec, THEN mp, OF m(2)])
  have step_v: "resolve_loop by_tag list_doc [] (?v # []) ?acc2 = Inl TypeError"
    by (rule valueBy_shape_is_not_checked[where f = ?v and L = by_tag and doc = list_doc
          and base = "[]" and el = "[0, 1, 0]" and others = "[]" and rest = "[]"
          and acc = ?acc2,
          THEN conjunct2, THEN conjunct1, THEN mp, OF v(1),
          THEN conjunct2, THEN mp, OF v(2), THEN conjunct1])
  have "resolveSelectFields by_tag (Fields [?u, ?m, ?v]) list_doc []
      = resolve_loop by_tag list_doc [] (?u # [?m, ?v]) empty_record"
    by simp
  also have "\<dots> = resolve_loop by_tag list_doc [] (?m # [?v]) ?acc1"
    by (rule step_u)
  also have "\<dots> = resolve_loop by_tag list_doc [] (?v # []) ?acc2"
    by (rule step_m)
  also have "\<dots> = Inl TypeError"
    by (rule step_v)
  finally have 1: "resolveSelectFields by_tag (Fields [?u, ?m, ?v]) list_doc [] = Inl TypeError" .
  have "resolveSelectFields by_tag (Fields [?u, ?m]) list_doc []
      = resolve_loop by_tag list_doc [] (?u # [?m]) empty_record"
    by simp
  also have "\<dots> = resolve_loop by_tag list_doc [] (?m # []) ?acc1"
    by (rule step_u)
  also have "\<dots> = resolve_loop by_tag list_doc [] [] ?acc2"
    by (rule step_m)
  also have "\<dots>
      = Inr (None, [(str ''u'', VRec (None, [])),
                   (str ''m'', VArr [VRec (None, []), VRec (None, []), VRec (None, [])])])"
    by (simp add: assign_defs)
  finally have 2: "resolveSelectFields by_tag (Fields [?u, ?m]) list_doc []
      = Inr (None, [(str ''u'', VRec (None, [])),
                   (str ''m'', VArr [VRec (None, []), VRec (None, []), VRec (None, [])])])" .
  from 1 2 show ?thesis by (rule conjI)
qed

text \<open>
  Three rules whose \<open>valueBy\<close> does not fit their \<open>valueType\<close>: a \<open>text\<close> rule with a rule
  list and an \<open>object\<close> rule with a string resolve without an error; an \<open>object\<close> rule
  with the number 5 ends with the \<^verbatim>\<open>TypeError\<close>, which is no \<^verbatim>\<open>NodeOperationError\<close>.
\<close>

theorem valueBy_mismatch_counterexample:
  "resolveSelectFields by_tag
     (Fields [Field (str ''t'') (str ''ul'') (str ''text'')
                (Fields [Field (str ''a'') (str ''li'') (str ''text'') Undefined None]) None,
              Field (str ''o'') (str ''ul'') (str ''object'') (Str (str ''class'')) None])
     list_doc []
   = Inr (None, [(str ''t'', VStr (str ''ABC'')), (str ''o'', VRec (None, []))])
   \<and> resolveSelectFields by_tag
       (Fields [Field (str ''o'') (str ''ul'') (str ''object'') (Other (str ''5'')) None])
       list_doc []
     = Inl TypeError"
  by (simp add: fixture_defs assign_defs resolve_loop.simps(2) formatText_def trim_def
      is_space_def replace_all_collapse)

end
